theory Spec2Isabelle
  imports
    Complex_Main
    "HOL-Library.Char_ord"
    "HOL-Library.List_Lexorder"
    "HOL-Library.Product_Lexorder"
    "HOL-Library.Multiset"
begin

section \<open>Data model of \<open>timetable_scheduler_improved.py\<close>\<close>

text \<open>
  The enum \<open>SessionType\<close> and the dataclasses \<open>TimeSlot\<close>, \<open>Course\<close>, \<open>Room\<close> and
  \<open>ScheduledSession\<close>. A \<open>datetime.time\<close> built as \<open>time(h, m)\<close> is the pair \<open>(h, m)\<close>.
  The float \<open>duration_hours\<close> only ever holds the literals 1.5, 1.0 and 2.0, is only
  compared by \<open>==\<close>/\<open>!=\<close> and used as a dictionary key; these values are exactly
  representable, so a rational number models them without loss.
\<close>

datatype SessionType = LECTURE | TUTORIAL | PRACTICAL

type_synonym time = "nat \<times> nat"

record TimeSlot =
  day :: string
  start_time :: time
  end_time :: time
  duration_hours :: rat

record Course =
  course_id :: string
  course_code :: string
  course_title :: string
  semester :: int
  semester_half :: string
  branch :: string
  section' :: "string option"
  lectures :: int
  tutorials :: int
  practicals :: int
  faculty_name :: string
  is_elective :: bool
  basket :: "string option"
  num_students :: int

record Room =
  room_id :: string
  capacity :: int

record ScheduledSession =
  ss_course :: Course
  ss_session_type :: SessionType
  ss_time_slot :: TimeSlot
  ss_room :: Room
  ss_faculty_name :: string
  ss_session_number :: int
  ss_basket :: "string option"

subsection \<open>Strings\<close>

text \<open>Python's \<open>str(n)\<close> (as used by f-strings) for integers: decimal digits, a leading
  minus sign for negative numbers.\<close>

definition digit_char :: "nat \<Rightarrow> char" where
  "digit_char d = char_of (48 + d)"

fun str_nat :: "nat \<Rightarrow> string" where
  "str_nat n = (if n < 10 then [digit_char n] else str_nat (n div 10) @ [digit_char (n mod 10)])"

declare str_nat.simps [simp del]

definition str_int :: "int \<Rightarrow> string" where
  "str_int i = (if i < 0 then CHR ''-'' # str_nat (nat (- i)) else str_nat (nat i))"

text \<open>\<open>s.startswith(p)\<close> and \<open>p in s\<close> on strings.\<close>

fun startswith :: "string \<Rightarrow> string \<Rightarrow> bool" where
  "startswith s [] = True"
| "startswith [] (p # ps) = False"
| "startswith (c # cs) (p # ps) = (c = p \<and> startswith cs ps)"

fun str_contains :: "string \<Rightarrow> string \<Rightarrow> bool" where
  "str_contains [] p = (p = [])"
| "str_contains (c # cs) p = (startswith (c # cs) p \<or> str_contains cs p)"

text \<open>\<open>s.upper()\<close>, on ASCII strings: the letters a..z are mapped to A..Z, every other
  character is left as it is.\<close>

definition upper_char :: "char \<Rightarrow> char" where
  "upper_char c =
     (if 97 \<le> (of_char c :: nat) \<and> (of_char c :: nat) \<le> 122
      then char_of ((of_char c :: nat) - 32) else c)"

definition upper :: "string \<Rightarrow> string" where
  "upper s = map upper_char s"

subsection \<open>Methods of the dataclasses\<close>

text \<open>\<open>TimeSlot.__eq__\<close>: day, start and end decide; the duration is not compared.\<close>

definition slot_eq :: "TimeSlot \<Rightarrow> TimeSlot \<Rightarrow> bool" where
  "slot_eq a b = (day a = day b \<and> start_time a = start_time b \<and> end_time a = end_time b)"

text \<open>\<open>time_slot in slots\<close> on a list, which compares with \<open>__eq__\<close>.\<close>

definition slot_in :: "TimeSlot \<Rightarrow> TimeSlot list \<Rightarrow> bool" where
  "slot_in ts slots = list_ex (\<lambda>x. slot_eq ts x) slots"

text \<open>\<open>Course.get_student_key\<close>. The test \<open>if self.section\<close> is false for \<open>None\<close> and
  for the empty string. Python's \<open>//\<close> is floor division, as \<open>div\<close> on \<open>int\<close>.\<close>

definition get_student_key :: "Course \<Rightarrow> string" where
  "get_student_key c =
     (case section' c of
        Some sec \<Rightarrow>
          if sec \<noteq> [] then branch c @ ''_'' @ sec @ ''_Sem'' @ str_int (semester c)
          else branch c @ ''_Year'' @ str_int ((semester c + 1) div 2)
      | None \<Rightarrow> branch c @ ''_Year'' @ str_int ((semester c + 1) div 2))"

definition session_type_value :: "SessionType \<Rightarrow> string" where
  "session_type_value st =
     (case st of LECTURE \<Rightarrow> ''Lecture'' | TUTORIAL \<Rightarrow> ''Tutorial'' | PRACTICAL \<Rightarrow> ''Practical'')"

section \<open>The scheduler\<close>

text \<open>
  The attributes of \<open>ImprovedScheduler\<close>. The nested \<open>defaultdict\<close>s are total functions
  whose default value is the empty list, the \<open>Counter\<close> is a total function whose default
  is 0. The list \<open>courses\<close> is the store of the course objects: a reference to a course
  is its index in this list, which is how \<open>elective_baskets\<close> refers to its members.
\<close>

record Scheduler =
  courses :: "Course list"
  rooms :: "Room list"
  schedule :: "ScheduledSession list"
  faculty_schedule :: "string \<Rightarrow> string \<Rightarrow> TimeSlot list"
  room_schedule :: "string \<Rightarrow> string \<Rightarrow> TimeSlot list"
  student_schedule :: "string \<Rightarrow> string \<Rightarrow> TimeSlot list"
  course_daily_schedule :: "string \<Rightarrow> string \<Rightarrow> SessionType list"
  time_slots :: "TimeSlot list"
  slots_by_duration :: "rat \<Rightarrow> TimeSlot list"
  big_rooms :: "Room list"
  regular_rooms :: "Room list"
  labs :: "Room list"
  conflicts :: "string list"
  conflict_reasons :: "string \<Rightarrow> nat"
  elective_baskets :: "(string \<times> nat list) list"

subsection \<open>\<open>_generate_time_slots\<close>\<close>

definition mk_slot :: "string \<Rightarrow> time \<Rightarrow> time \<Rightarrow> rat \<Rightarrow> TimeSlot" where
  "mk_slot d s e h = \<lparr>day = d, start_time = s, end_time = e, duration_hours = h\<rparr>"

definition days :: "string list" where
  "days = [''Monday'', ''Tuesday'', ''Wednesday'', ''Thursday'', ''Friday'']"

definition day_slots :: "string \<Rightarrow> TimeSlot list" where
  "day_slots d =
     [mk_slot d (9, 0) (10, 30) (3/2),
      mk_slot d (11, 0) (12, 30) (3/2),
      mk_slot d (14, 0) (15, 30) (3/2),
      mk_slot d (16, 0) (17, 30) (3/2),
      mk_slot d (9, 0) (10, 0) 1,
      mk_slot d (10, 30) (11, 30) 1,
      mk_slot d (11, 30) (12, 30) 1,
      mk_slot d (14, 0) (15, 0) 1,
      mk_slot d (15, 30) (16, 30) 1,
      mk_slot d (16, 30) (17, 30) 1,
      mk_slot d (9, 0) (11, 0) 2,
      mk_slot d (11, 0) (13, 0) 2,
      mk_slot d (14, 0) (16, 0) 2,
      mk_slot d (16, 0) (18, 0) 2]"

definition generate_time_slots :: "TimeSlot list" where
  "generate_time_slots = concat (map day_slots days)"

text \<open>The loop of \<open>__init__\<close> that appends every slot to the list of its duration.\<close>

definition group_by_duration :: "TimeSlot list \<Rightarrow> rat \<Rightarrow> TimeSlot list" where
  "group_by_duration slots =
     fold (\<lambda>slot m. m(duration_hours slot := m (duration_hours slot) @ [slot])) slots (\<lambda>_. [])"

subsection \<open>Room categories\<close>

text \<open>\<open>sorted(..., key=lambda r: -r.capacity)\<close>: Python's sort is stable, as is
  \<open>sort_key\<close>.\<close>

definition is_lab :: "Room \<Rightarrow> bool" where
  "is_lab r = (startswith (room_id r) ''L'' \<or> str_contains (upper (room_id r)) ''LAB'')"

definition classify_big :: "Room list \<Rightarrow> Room list" where
  "classify_big rs = sort_key (\<lambda>r. - capacity r) (filter (\<lambda>r. capacity r \<ge> 100) rs)"

definition classify_regular :: "Room list \<Rightarrow> Room list" where
  "classify_regular rs =
     sort_key (\<lambda>r. - capacity r)
       (filter (\<lambda>r. capacity r < 100 \<and> \<not> startswith (room_id r) ''L'') rs)"

definition classify_labs :: "Room list \<Rightarrow> Room list" where
  "classify_labs rs = filter is_lab rs"

subsection \<open>\<open>_detect_baskets\<close>\<close>

text \<open>
  A Python \<open>dict\<close> iterates in insertion order, so \<open>defaultdict(list)\<close> is an
  association list in the order in which the keys were first used;
  \<open>d[key].append(v)\<close> is \<open>dict_append\<close>.
\<close>

fun dict_append :: "'k \<Rightarrow> 'v \<Rightarrow> ('k \<times> 'v list) list \<Rightarrow> ('k \<times> 'v list) list" where
  "dict_append k v [] = [(k, [v])]"
| "dict_append k v ((k', vs) # d) =
     (if k' = k then (k', vs @ [v]) # d else (k', vs) # dict_append k v d)"

type_synonym group_key = "int \<times> string \<times> string"

definition elective_key :: "Course \<Rightarrow> group_key" where
  "elective_key c = (semester c, branch c, semester_half c)"

text \<open>The first loop; \<open>i\<close> is the index of the head of the remaining courses.\<close>

fun collect_groups ::
  "Course list \<Rightarrow> nat \<Rightarrow> (group_key \<times> nat list) list \<Rightarrow> (group_key \<times> nat list) list" where
  "collect_groups [] i groups = groups"
| "collect_groups (c # cs) i groups =
     collect_groups cs (Suc i)
       (if is_elective c then dict_append (elective_key c) i groups else groups)"

definition elective_groups :: "Course list \<Rightarrow> (group_key \<times> nat list) list" where
  "elective_groups cs = collect_groups cs 0 []"

text \<open>The inner loop over the members of one group: \<open>course.basket = basket_id\<close> and
  \<open>baskets[basket_id].append(course)\<close>.\<close>

definition assign_members ::
  "string \<Rightarrow> nat list \<Rightarrow> Course list \<times> (string \<times> nat list) list
     \<Rightarrow> Course list \<times> (string \<times> nat list) list" where
  "assign_members basket_id members =
     fold (\<lambda>i (cs, baskets).
             (cs[i := (cs ! i)\<lparr>basket := Some basket_id\<rparr>], dict_append basket_id i baskets))
          members"

fun assign_baskets ::
  "(group_key \<times> nat list) list \<Rightarrow> nat \<Rightarrow> Course list \<times> (string \<times> nat list) list
     \<Rightarrow> Course list \<times> (string \<times> nat list) list" where
  "assign_baskets [] basket_counter st = st"
| "assign_baskets ((key, members) # groups) basket_counter st =
     (if length members > 1
      then assign_baskets groups (basket_counter + 1)
             (assign_members (''B'' @ str_nat basket_counter) members st)
      else assign_baskets groups basket_counter st)"

definition detect_baskets :: "Course list \<Rightarrow> Course list \<times> (string \<times> nat list) list" where
  "detect_baskets cs = assign_baskets (elective_groups cs) 1 (cs, [])"

subsection \<open>\<open>__init__\<close>\<close>

definition init :: "Course list \<Rightarrow> Room list \<Rightarrow> Scheduler" where
  "init cs rs =
     \<lparr>courses = fst (detect_baskets cs),
      rooms = rs,
      schedule = [],
      faculty_schedule = (\<lambda>_ _. []),
      room_schedule = (\<lambda>_ _. []),
      student_schedule = (\<lambda>_ _. []),
      course_daily_schedule = (\<lambda>_ _. []),
      time_slots = generate_time_slots,
      slots_by_duration = group_by_duration generate_time_slots,
      big_rooms = classify_big rs,
      regular_rooms = classify_regular rs,
      labs = classify_labs rs,
      conflicts = [],
      conflict_reasons = (\<lambda>_. 0),
      elective_baskets = snd (detect_baskets cs)\<rparr>"

subsection \<open>\<open>_get_suitable_rooms\<close>\<close>

definition get_suitable_rooms :: "Scheduler \<Rightarrow> Course \<Rightarrow> SessionType \<Rightarrow> Room list" where
  "get_suitable_rooms s course session_type =
     (if session_type = PRACTICAL
      then filter (\<lambda>room. capacity room \<ge> num_students course) (labs s)
      else filter (\<lambda>room. capacity room \<ge> num_students course) (big_rooms s @ regular_rooms s))"

subsection \<open>\<open>_check_constraints\<close>\<close>

text \<open>\<open>self.conflict_reasons[r] += 1\<close>\<close>

definition count_reason :: "string \<Rightarrow> Scheduler \<Rightarrow> Scheduler" where
  "count_reason r s = s\<lparr>conflict_reasons := (conflict_reasons s)(r := conflict_reasons s r + 1)\<rparr>"

definition required :: "SessionType \<Rightarrow> rat" where
  "required st = (case st of LECTURE \<Rightarrow> 3/2 | TUTORIAL \<Rightarrow> 1 | PRACTICAL \<Rightarrow> 2)"

text \<open>The result is the returned pair and the scheduler after the call (only its counter
  of reasons can have changed).\<close>

definition check_constraints ::
  "Scheduler \<Rightarrow> Course \<Rightarrow> SessionType \<Rightarrow> TimeSlot \<Rightarrow> Room \<Rightarrow> (bool \<times> string) \<times> Scheduler" where
  "check_constraints s course session_type time_slot room =
     (let semester_half = semester_half course;
          student_key = get_student_key course;
          daily_sessions = course_daily_schedule s (course_id course) (day time_slot)
      in
      if slot_in time_slot (faculty_schedule s (faculty_name course) semester_half)
      then ((False, ''Faculty busy''), count_reason ''Faculty busy'' s)
      else if list_ex (\<lambda>half. slot_in time_slot (room_schedule s (room_id room) half))
                [''Sem-I'', ''Sem-II'']
      then ((False, ''Room occupied''), count_reason ''Room occupied'' s)
      else if slot_in time_slot (student_schedule s student_key semester_half)
      then ((False, ''Students busy''), count_reason ''Students busy'' s)
      else if length daily_sessions \<ge> 2
      then ((False, ''Course already has 2 sessions today''),
            count_reason ''Max 2 sessions/day exceeded'' s)
      else if length daily_sessions = 1 \<and> session_type = PRACTICAL
                \<and> hd daily_sessions = PRACTICAL
      then ((False, ''Already has a practical today''),
            count_reason ''Two practicals same day'' s)
      else if length daily_sessions = 1 \<and> session_type = LECTURE
                \<and> hd daily_sessions = LECTURE
      then ((False, ''Already has a lecture today''),
            count_reason ''Two lectures same day'' s)
      else if length daily_sessions = 1 \<and> session_type = TUTORIAL
                \<and> hd daily_sessions = TUTORIAL
      then ((False, ''Already has a tutorial today''),
            count_reason ''Two tutorials same day'' s)
      else if length daily_sessions = 1
                \<and> ((session_type = LECTURE \<and> hd daily_sessions = TUTORIAL)
                     \<or> (session_type = TUTORIAL \<and> hd daily_sessions = LECTURE))
      then ((False, ''Already has a theory session today''),
            count_reason ''Lecture+Tutorial same day'' s)
      else if duration_hours time_slot \<noteq> required session_type
      then ((False, ''Wrong duration''), count_reason ''Wrong duration'' s)
      else ((True, ''OK''), s))"

subsection \<open>\<open>_schedule_session\<close>\<close>

text \<open>The body of \<open>if valid\<close>: the session is appended and the four trackers updated.\<close>

definition commit ::
  "Scheduler \<Rightarrow> Course \<Rightarrow> SessionType \<Rightarrow> int \<Rightarrow> TimeSlot \<Rightarrow> Room \<Rightarrow> Scheduler" where
  "commit s course session_type session_number time_slot room =
     (let session = \<lparr>ss_course = course, ss_session_type = session_type,
                     ss_time_slot = time_slot, ss_room = room,
                     ss_faculty_name = faculty_name course,
                     ss_session_number = session_number, ss_basket = basket course\<rparr>;
          semester_half = semester_half course;
          f = faculty_name course; r = room_id room; k = get_student_key course;
          c = course_id course; d = day time_slot
      in s\<lparr>schedule := schedule s @ [session],
           faculty_schedule :=
             (faculty_schedule s)(f := (faculty_schedule s f)
                (semester_half := faculty_schedule s f semester_half @ [time_slot])),
           room_schedule :=
             (room_schedule s)(r := (room_schedule s r)
                (semester_half := room_schedule s r semester_half @ [time_slot])),
           student_schedule :=
             (student_schedule s)(k := (student_schedule s k)
                (semester_half := student_schedule s k semester_half @ [time_slot])),
           course_daily_schedule :=
             (course_daily_schedule s)(c := (course_daily_schedule s c)
                (d := course_daily_schedule s c d @ [session_type]))\<rparr>)"

text \<open>The inner loop over the rooms and the outer loop over the slots; the result is
  whether a session was placed (the \<open>return True\<close> inside the loops), and the scheduler.\<close>

fun try_rooms ::
  "Scheduler \<Rightarrow> Course \<Rightarrow> SessionType \<Rightarrow> int \<Rightarrow> TimeSlot \<Rightarrow> Room list \<Rightarrow> bool \<times> Scheduler" where
  "try_rooms s course session_type session_number time_slot [] = (False, s)"
| "try_rooms s course session_type session_number time_slot (room # rs) =
     (case check_constraints s course session_type time_slot room of
        ((valid, _), s') \<Rightarrow>
          if valid then (True, commit s' course session_type session_number time_slot room)
          else try_rooms s' course session_type session_number time_slot rs)"

fun try_slots ::
  "Scheduler \<Rightarrow> Course \<Rightarrow> SessionType \<Rightarrow> int \<Rightarrow> TimeSlot list \<Rightarrow> Room list \<Rightarrow> bool \<times> Scheduler" where
  "try_slots s course session_type session_number [] suitable_rooms = (False, s)"
| "try_slots s course session_type session_number (time_slot # slots) suitable_rooms =
     (case try_rooms s course session_type session_number time_slot suitable_rooms of
        (placed, s') \<Rightarrow>
          if placed then (True, s')
          else try_slots s' course session_type session_number slots suitable_rooms)"

definition schedule_session :: "Scheduler \<Rightarrow> Course \<Rightarrow> SessionType \<Rightarrow> int \<Rightarrow> bool \<times> Scheduler" where
  "schedule_session s course session_type session_number =
     (let suitable_rooms = get_suitable_rooms s course session_type in
      if suitable_rooms = [] then (False, count_reason ''No suitable room'' s)
      else try_slots s course session_type session_number
             (slots_by_duration s (required session_type)) suitable_rooms)"

subsection \<open>\<open>schedule_course\<close>\<close>

definition conflict_message :: "Course \<Rightarrow> SessionType \<Rightarrow> int \<Rightarrow> string" where
  "conflict_message course session_type session_num =
     course_code course @ '' ('' @ branch course @ '' ''
       @ (case section' course of None \<Rightarrow> [] | Some sec \<Rightarrow> sec) @ '' ''
       @ semester_half course @ '') - '' @ session_type_value session_type @ '' #''
       @ str_int session_num @ '' - Faculty: '' @ faculty_name course"

text \<open>The loop \<open>for session_num in range(1, count + 1)\<close> for one session type; the
  numbers are the list \<open>[1..count]\<close>, empty when \<open>count < 1\<close>.\<close>

fun schedule_numbers ::
  "Scheduler \<Rightarrow> Course \<Rightarrow> SessionType \<Rightarrow> int list \<Rightarrow> nat \<Rightarrow> nat \<times> Scheduler" where
  "schedule_numbers s course session_type [] scheduled_count = (scheduled_count, s)"
| "schedule_numbers s course session_type (session_num # nums) scheduled_count =
     (case schedule_session s course session_type session_num of
        (placed, s') \<Rightarrow>
          if placed then schedule_numbers s' course session_type nums (scheduled_count + 1)
          else schedule_numbers
                 (s'\<lparr>conflicts := conflicts s' @ [conflict_message course session_type session_num]\<rparr>)
                 course session_type nums scheduled_count)"

definition sessions_needed :: "Course \<Rightarrow> (SessionType \<times> int) list" where
  "sessions_needed course =
     [(LECTURE, lectures course), (TUTORIAL, tutorials course), (PRACTICAL, practicals course)]"

fun schedule_types ::
  "Scheduler \<Rightarrow> Course \<Rightarrow> (SessionType \<times> int) list \<Rightarrow> nat \<Rightarrow> nat \<times> Scheduler" where
  "schedule_types s course [] scheduled_count = (scheduled_count, s)"
| "schedule_types s course ((session_type, cnt) # rest) scheduled_count =
     (case schedule_numbers s course session_type [1..cnt] scheduled_count of
        (n, s') \<Rightarrow> schedule_types s' course rest n)"

definition schedule_course :: "Scheduler \<Rightarrow> Course \<Rightarrow> nat \<times> Scheduler" where
  "schedule_course s course = schedule_types s course (sessions_needed course) 0"

subsection \<open>\<open>generate_timetable\<close>\<close>

definition course_sort_key :: "Course \<Rightarrow> string \<times> int \<times> int \<times> int" where
  "course_sort_key c = (semester_half c, semester c, - practicals c, - num_students c)"

fun schedule_courses :: "Scheduler \<Rightarrow> Course list \<Rightarrow> nat \<Rightarrow> nat \<times> Scheduler" where
  "schedule_courses s [] total_sessions = (total_sessions, s)"
| "schedule_courses s (course # cs) total_sessions =
     (case schedule_course s course of
        (cnt, s') \<Rightarrow> schedule_courses s' cs (total_sessions + cnt))"

text \<open>The run: the courses in sorted order, one after the other. The result is
  \<open>total_sessions\<close> and the scheduler, from which \<open>export_timetable\<close> reads
  \<open>schedule\<close> and \<open>conflicts\<close>.\<close>

definition generate_timetable :: "Scheduler \<Rightarrow> nat \<times> Scheduler" where
  "generate_timetable s = schedule_courses s (sort_key course_sort_key (courses s)) 0"

text \<open>Construction followed by \<open>generate_timetable\<close>, as \<open>main\<close> does.\<close>

definition run :: "Course list \<Rightarrow> Room list \<Rightarrow> Scheduler" where
  "run cs rs = snd (generate_timetable (init cs rs))"

section \<open>Properties of schedules\<close>

text \<open>Two sessions clash on a resource when they claim the same slot (in the sense of
  \<open>TimeSlot.__eq__\<close>) for it. Rooms are identified by their \<open>room_id\<close>, as in
  \<open>room_schedule\<close>; two sessions in the same room have the same \<open>room_id\<close>.\<close>

definition faculty_clash :: "ScheduledSession \<Rightarrow> ScheduledSession \<Rightarrow> bool" where
  "faculty_clash x y =
     (ss_faculty_name x = ss_faculty_name y
      \<and> semester_half (ss_course x) = semester_half (ss_course y)
      \<and> slot_eq (ss_time_slot x) (ss_time_slot y))"

definition room_clash :: "ScheduledSession \<Rightarrow> ScheduledSession \<Rightarrow> bool" where
  "room_clash x y =
     (room_id (ss_room x) = room_id (ss_room y) \<and> slot_eq (ss_time_slot x) (ss_time_slot y))"

definition student_clash :: "ScheduledSession \<Rightarrow> ScheduledSession \<Rightarrow> bool" where
  "student_clash x y =
     (get_student_key (ss_course x) = get_student_key (ss_course y)
      \<and> semester_half (ss_course x) = semester_half (ss_course y)
      \<and> slot_eq (ss_time_slot x) (ss_time_slot y))"

definition recognized_half :: "Course \<Rightarrow> bool" where
  "recognized_half c = (semester_half c = ''Sem-I'' \<or> semester_half c = ''Sem-II'')"

text \<open>The sessions of the course with id \<open>cid\<close> placed on day \<open>d\<close>, in schedule order.\<close>

definition sessions_on :: "Scheduler \<Rightarrow> string \<Rightarrow> string \<Rightarrow> ScheduledSession list" where
  "sessions_on s cid d =
     filter (\<lambda>x. course_id (ss_course x) = cid \<and> day (ss_time_slot x) = d) (schedule s)"

definition daily_ok :: "SessionType list \<Rightarrow> bool" where
  "daily_ok l = (length l \<le> 2 \<and> distinct l \<and> \<not> (LECTURE \<in> set l \<and> TUTORIAL \<in> set l))"

subsection \<open>Invariants of the trackers\<close>

definition inv_faculty :: "Scheduler \<Rightarrow> bool" where
  "inv_faculty s =
     ((\<forall>x \<in> set (schedule s).
         slot_in (ss_time_slot x)
           (faculty_schedule s (ss_faculty_name x) (semester_half (ss_course x))))
      \<and> sorted_wrt (\<lambda>x y. \<not> faculty_clash x y) (schedule s))"

definition inv_room :: "Scheduler \<Rightarrow> bool" where
  "inv_room s =
     ((\<forall>x \<in> set (schedule s).
         recognized_half (ss_course x)
         \<and> slot_in (ss_time_slot x)
             (room_schedule s (room_id (ss_room x)) (semester_half (ss_course x))))
      \<and> sorted_wrt (\<lambda>x y. \<not> room_clash x y) (schedule s))"

definition inv_student :: "Scheduler \<Rightarrow> bool" where
  "inv_student s =
     ((\<forall>x \<in> set (schedule s).
         slot_in (ss_time_slot x)
           (student_schedule s (get_student_key (ss_course x)) (semester_half (ss_course x))))
      \<and> sorted_wrt (\<lambda>x y. \<not> student_clash x y) (schedule s))"

definition inv_daily :: "Scheduler \<Rightarrow> bool" where
  "inv_daily s =
     (\<forall>cid d. course_daily_schedule s cid d = map ss_session_type (sessions_on s cid d)
            \<and> daily_ok (course_daily_schedule s cid d))"

definition inv_duration :: "Scheduler \<Rightarrow> bool" where
  "inv_duration s =
     (\<forall>x \<in> set (schedule s). duration_hours (ss_time_slot x) = required (ss_session_type x))"

subsection \<open>Frame of the course objects\<close>

text \<open>\<open>c'\<close> is the course \<open>c\<close> up to its \<open>basket\<close> field.\<close>

definition only_basket_differs :: "Course \<Rightarrow> Course \<Rightarrow> bool" where
  "only_basket_differs c c' = (c'\<lparr>basket := basket c\<rparr> = c)"

subsection \<open>Example inputs\<close>

text \<open>A course with two lectures and one practical, a lecture room and a lab.\<close>

definition demo_course :: Course where
  "demo_course =
     \<lparr>course_id = ''COURSE_1'', course_code = ''CS101'', course_title = ''Programming'',
      semester = 1, semester_half = ''Sem-I'', branch = ''CSE'', section' = None,
      lectures = 2, tutorials = 0, practicals = 1, faculty_name = ''Rao'',
      is_elective = False, basket = None, num_students = 60\<rparr>"

definition demo_room :: Room where
  "demo_room = \<lparr>room_id = ''C101'', capacity = 120\<rparr>"

definition demo_lab :: Room where
  "demo_lab = \<lparr>room_id = ''L1'', capacity = 60\<rparr>"

definition demo_session :: "SessionType \<Rightarrow> TimeSlot \<Rightarrow> Room \<Rightarrow> int \<Rightarrow> ScheduledSession" where
  "demo_session st ts r n =
     \<lparr>ss_course = demo_course, ss_session_type = st, ss_time_slot = ts, ss_room = r,
      ss_faculty_name = ''Rao'', ss_session_number = n, ss_basket = None\<rparr>"

text \<open>A course with one lecture whose \<open>semester_half\<close> is \<open>h\<close>; branch, faculty and
  ids are derived from \<open>name\<close>.\<close>

definition half_course :: "string \<Rightarrow> string \<Rightarrow> Course" where
  "half_course h name =
     \<lparr>course_id = ''COURSE_'' @ name, course_code = name, course_title = name,
      semester = 1, semester_half = h, branch = name, section' = None,
      lectures = 1, tutorials = 0, practicals = 0, faculty_name = name,
      is_elective = False, basket = None, num_students = 60\<rparr>"

subsection \<open>Counting\<close>

text \<open>The sessions accounted for so far, placed or reported as a conflict, and the sessions
  a course asks for (\<open>range(1, count + 1)\<close> is empty for a negative count).\<close>

definition booked :: "Scheduler \<Rightarrow> nat" where
  "booked s = length (schedule s) + length (conflicts s)"

definition sessions_required :: "Course \<Rightarrow> nat" where
  "sessions_required c = nat (lectures c) + nat (tutorials c) + nat (practicals c)"

subsection \<open>The checks of \<open>_check_constraints\<close>, one by one\<close>

definition faculty_busy :: "Scheduler \<Rightarrow> Course \<Rightarrow> TimeSlot \<Rightarrow> bool" where
  "faculty_busy s c ts = slot_in ts (faculty_schedule s (faculty_name c) (semester_half c))"

definition room_occupied :: "Scheduler \<Rightarrow> Room \<Rightarrow> TimeSlot \<Rightarrow> bool" where
  "room_occupied s r ts =
     (slot_in ts (room_schedule s (room_id r) ''Sem-I'')
      \<or> slot_in ts (room_schedule s (room_id r) ''Sem-II''))"

definition students_busy :: "Scheduler \<Rightarrow> Course \<Rightarrow> TimeSlot \<Rightarrow> bool" where
  "students_busy s c ts = slot_in ts (student_schedule s (get_student_key c) (semester_half c))"

definition daily_sessions :: "Scheduler \<Rightarrow> Course \<Rightarrow> TimeSlot \<Rightarrow> SessionType list" where
  "daily_sessions s c ts = course_daily_schedule s (course_id c) (day ts)"

text \<open>The collision table: the course has exactly one session that day, of type
  \<open>existing\<close>, and the new session has type \<open>new\<close>.\<close>

definition type_collision :: "SessionType \<Rightarrow> SessionType \<Rightarrow> bool" where
  "type_collision existing new =
     (existing = new \<or> (existing = LECTURE \<and> new = TUTORIAL)
      \<or> (existing = TUTORIAL \<and> new = LECTURE))"

text \<open>A rejection: the returned pair carries \<open>message\<close>, and the counter of \<open>reason\<close>
  is incremented.\<close>

definition rejected :: "string \<Rightarrow> string \<Rightarrow> Scheduler \<Rightarrow> (bool \<times> string) \<times> Scheduler" where
  "rejected message reason s = ((False, message), count_reason reason s)"

text \<open>Rooms whose ids are lab-like: one of capacity 150 with the prefix, one of capacity
  50 with the marker only.\<close>

definition big_lab :: Room where
  "big_lab = \<lparr>room_id = ''L2'', capacity = 150\<rparr>"

definition marker_lab :: Room where
  "marker_lab = \<lparr>room_id = ''CLAB1'', capacity = 50\<rparr>"

subsection \<open>Elective groups\<close>

text \<open>The course at index \<open>i\<close> is an elective and another elective of the list has its
  key; the indices of the electives with key \<open>k\<close>; the groups with more than one member,
  in the order of the dictionary.\<close>

definition shares_key :: "Course list \<Rightarrow> nat \<Rightarrow> bool" where
  "shares_key cs i =
     (is_elective (cs ! i)
      \<and> (\<exists>j<length cs. j \<noteq> i \<and> is_elective (cs ! j)
            \<and> elective_key (cs ! j) = elective_key (cs ! i)))"

definition members :: "Course list \<Rightarrow> group_key \<Rightarrow> nat list" where
  "members cs k =
     filter (\<lambda>j. is_elective (cs ! j) \<and> elective_key (cs ! j) = k) [0..<length cs]"

definition multi_groups :: "Course list \<Rightarrow> (group_key \<times> nat list) list" where
  "multi_groups cs = filter (\<lambda>g. length (snd g) > 1) (elective_groups cs)"

text \<open>An elective of semester \<open>sem\<close> in branch \<open>CSE\<close>, and four courses: three
  electives, the first and the third with the same key, and a course that is no
  elective.\<close>

definition elective_course :: "string \<Rightarrow> int \<Rightarrow> Course" where
  "elective_course name sem =
     \<lparr>course_id = ''COURSE_'' @ name, course_code = name, course_title = name,
      semester = sem, semester_half = ''Sem-I'', branch = ''CSE'', section' = None,
      lectures = 1, tutorials = 0, practicals = 0, faculty_name = name,
      is_elective = True, basket = None, num_students = 60\<rparr>"

definition elective_courses :: "Course list" where
  "elective_courses =
     [elective_course ''E1'' 5, elective_course ''E2'' 7, elective_course ''E3'' 5,
      half_course ''Sem-I'' ''A'']"

section \<open>Lemmas on the assignment engine\<close>

subsection \<open>What a run preserves\<close>

lemma check_state:
  "snd (check_constraints s c st ts r)
     = s\<lparr>conflict_reasons := conflict_reasons (snd (check_constraints s c st ts r))\<rparr>"
  by (simp add: check_constraints_def count_reason_def Let_def)

lemma check_accept_state:
  "fst (fst (check_constraints s c st ts r)) \<Longrightarrow> snd (check_constraints s c st ts r) = s"
  by (auto simp: check_constraints_def Let_def split: if_splits)

lemma try_rooms_preserves:
  assumes R: "\<And>s f. P s \<Longrightarrow> P (s\<lparr>conflict_reasons := f\<rparr>)"
    and C: "\<And>s ts r. P s \<Longrightarrow> fst (fst (check_constraints s c st ts r))
              \<Longrightarrow> P (commit s c st n ts r)"
  shows "P s \<Longrightarrow> P (snd (try_rooms s c st n ts rs))"
proof (induction rs arbitrary: s)
  case Nil
  then show ?case by simp
next
  case (Cons r rs)
  obtain v m s' where cc: "check_constraints s c st ts r = ((v, m), s')"
    by (metis surj_pair)
  have s': "s' = s\<lparr>conflict_reasons := conflict_reasons s'\<rparr>"
    using check_state [of s c st ts r] cc by simp
  have Ps': "P s'" using R [OF Cons.prems, of "conflict_reasons s'"] s' by simp
  show ?case
  proof (cases v)
    case True
    then have "s' = s" using check_accept_state [of s c st ts r] cc by simp
    moreover have "P (commit s c st n ts r)" using C [OF Cons.prems] cc True by simp
    ultimately show ?thesis using cc True by simp
  next
    case False
    then show ?thesis using cc Cons.IH [OF Ps'] by simp
  qed
qed

lemma try_slots_preserves:
  assumes R: "\<And>s f. P s \<Longrightarrow> P (s\<lparr>conflict_reasons := f\<rparr>)"
    and C: "\<And>s ts r. P s \<Longrightarrow> fst (fst (check_constraints s c st ts r))
              \<Longrightarrow> P (commit s c st n ts r)"
  shows "P s \<Longrightarrow> P (snd (try_slots s c st n tss rs))"
proof (induction tss arbitrary: s)
  case Nil
  then show ?case by simp
next
  case (Cons ts tss)
  have "P (snd (try_rooms s c st n ts rs))"
    using try_rooms_preserves [of P c st n, OF R C Cons.prems] by blast
  then show ?case using Cons.IH
    by (cases "try_rooms s c st n ts rs") auto
qed

lemma schedule_session_preserves:
  assumes R: "\<And>s f. P s \<Longrightarrow> P (s\<lparr>conflict_reasons := f\<rparr>)"
    and C: "\<And>s ts r. P s \<Longrightarrow> fst (fst (check_constraints s c st ts r))
              \<Longrightarrow> P (commit s c st n ts r)"
  shows "P s \<Longrightarrow> P (snd (schedule_session s c st n))"
  using try_slots_preserves [of P c st n, OF R C] R
  by (simp add: schedule_session_def Let_def count_reason_def)

lemma schedule_numbers_preserves:
  assumes R: "\<And>s f. P s \<Longrightarrow> P (s\<lparr>conflict_reasons := f\<rparr>)"
    and F: "\<And>s x. P s \<Longrightarrow> P (s\<lparr>conflicts := x\<rparr>)"
    and C: "\<And>s n ts r. P s \<Longrightarrow> fst (fst (check_constraints s c st ts r))
              \<Longrightarrow> P (commit s c st n ts r)"
  shows "P s \<Longrightarrow> P (snd (schedule_numbers s c st nums k))"
proof (induction nums arbitrary: s k)
  case Nil
  then show ?case by simp
next
  case (Cons n nums)
  have "P (snd (schedule_session s c st n))"
    using schedule_session_preserves [of P c st n, OF R C Cons.prems] by blast
  then show ?case using Cons.IH F
    by (cases "schedule_session s c st n") auto
qed

lemma schedule_course_preserves:
  assumes R: "\<And>s f. P s \<Longrightarrow> P (s\<lparr>conflict_reasons := f\<rparr>)"
    and F: "\<And>s x. P s \<Longrightarrow> P (s\<lparr>conflicts := x\<rparr>)"
    and C: "\<And>s st n ts r. P s \<Longrightarrow> fst (fst (check_constraints s c st ts r))
              \<Longrightarrow> P (commit s c st n ts r)"
  shows "P s \<Longrightarrow> P (snd (schedule_course s c))"
proof -
  have step: "P (snd (schedule_numbers s c st nums k))" if "P s" for s st nums k
    using schedule_numbers_preserves [of P c st, OF R F C that] by blast
  have "P s \<Longrightarrow> P (snd (schedule_types s c needed k))" for needed k s
  proof (induction needed arbitrary: s k)
    case Nil
    then show ?case by simp
  next
    case (Cons a needed)
    obtain st cnt where a: "a = (st, cnt)" by (cases a)
    show ?case using step [OF Cons.prems, of st "[1..cnt]" k] Cons.IH
      by (cases "schedule_numbers s c st [1..cnt] k") (auto simp: a)
  qed
  then show "P s \<Longrightarrow> P (snd (schedule_course s c))"
    by (simp add: schedule_course_def)
qed

lemma schedule_courses_preserves:
  assumes R: "\<And>s f. P s \<Longrightarrow> P (s\<lparr>conflict_reasons := f\<rparr>)"
    and F: "\<And>s x. P s \<Longrightarrow> P (s\<lparr>conflicts := x\<rparr>)"
    and C: "\<And>s c st n ts r. P s \<Longrightarrow> c \<in> set cs
              \<Longrightarrow> fst (fst (check_constraints s c st ts r)) \<Longrightarrow> P (commit s c st n ts r)"
  shows "P s \<Longrightarrow> P (snd (schedule_courses s cs k))"
  using C
proof (induction cs arbitrary: s k)
  case Nil
  then show ?case by simp
next
  case (Cons c cs)
  have "P (snd (schedule_course s c))"
    using schedule_course_preserves [of P c, OF R F _ Cons.prems(1)] Cons.prems(2) by simp
  then show ?case using Cons.IH Cons.prems(2)
    by (cases "schedule_course s c") auto
qed

subsection \<open>Accepted placements keep the invariants\<close>

lemma slot_in_iff: "slot_in t xs = (\<exists>y \<in> set xs. slot_eq t y)"
  by (simp add: slot_in_def list_ex_iff)

lemma slot_in_append: "slot_in t (xs @ ys) = (slot_in t xs \<or> slot_in t ys)"
  by (auto simp: slot_in_iff)

lemma slot_in_single: "slot_in t [u] = slot_eq t u"
  by (simp add: slot_in_iff)

lemma slot_eq_refl: "slot_eq t t"
  by (simp add: slot_eq_def)

lemma slot_in_eq: "slot_eq a b \<Longrightarrow> slot_in a xs \<Longrightarrow> slot_in b xs"
  by (auto simp: slot_in_iff slot_eq_def)

lemma check_accept:
  assumes "fst (fst (check_constraints s c st ts r))"
  shows "\<not> slot_in ts (faculty_schedule s (faculty_name c) (semester_half c))"
    and "\<not> slot_in ts (room_schedule s (room_id r) ''Sem-I'')"
    and "\<not> slot_in ts (room_schedule s (room_id r) ''Sem-II'')"
    and "\<not> slot_in ts (student_schedule s (get_student_key c) (semester_half c))"
    and "length (course_daily_schedule s (course_id c) (day ts)) < 2"
    and "course_daily_schedule s (course_id c) (day ts) = [e] \<Longrightarrow>
           e \<noteq> st \<and> \<not> (e = LECTURE \<and> st = TUTORIAL) \<and> \<not> (e = TUTORIAL \<and> st = LECTURE)"
    and "duration_hours ts = required st"
  using assms
  by (auto simp: check_constraints_def Let_def split: if_splits) (cases st; simp)+

lemma schedule_commit:
  "schedule (commit s c st n ts r) = schedule s @
     [\<lparr>ss_course = c, ss_session_type = st, ss_time_slot = ts, ss_room = r,
       ss_faculty_name = faculty_name c, ss_session_number = n, ss_basket = basket c\<rparr>]"
  by (simp add: commit_def Let_def)

lemma faculty_schedule_commit:
  "faculty_schedule (commit s c st n ts r) f h =
     (if f = faculty_name c \<and> h = semester_half c then faculty_schedule s f h @ [ts]
      else faculty_schedule s f h)"
  by (simp add: commit_def Let_def)

lemma room_schedule_commit:
  "room_schedule (commit s c st n ts r) i h =
     (if i = room_id r \<and> h = semester_half c then room_schedule s i h @ [ts]
      else room_schedule s i h)"
  by (simp add: commit_def Let_def)

lemma student_schedule_commit:
  "student_schedule (commit s c st n ts r) k h =
     (if k = get_student_key c \<and> h = semester_half c then student_schedule s k h @ [ts]
      else student_schedule s k h)"
  by (simp add: commit_def Let_def)

lemma course_daily_schedule_commit:
  "course_daily_schedule (commit s c st n ts r) i d =
     (if i = course_id c \<and> d = day ts then course_daily_schedule s i d @ [st]
      else course_daily_schedule s i d)"
  by (simp add: commit_def Let_def)

lemma inv_faculty_commit:
  assumes I: "inv_faculty s" and A: "fst (fst (check_constraints s c st ts r))"
  shows "inv_faculty (commit s c st n ts r)"
proof -
  have free: "\<not> slot_in ts (faculty_schedule s (faculty_name c) (semester_half c))"
    using check_accept(1) [OF A] .
  have tr: "\<forall>x \<in> set (schedule s). slot_in (ss_time_slot x)
           (faculty_schedule s (ss_faculty_name x) (semester_half (ss_course x)))"
    and sw: "sorted_wrt (\<lambda>x y. \<not> faculty_clash x y) (schedule s)"
    using I by (simp_all add: inv_faculty_def)
  have new: "\<not> faculty_clash x \<lparr>ss_course = c, ss_session_type = st, ss_time_slot = ts, ss_room = r,
       ss_faculty_name = faculty_name c, ss_session_number = n, ss_basket = basket c\<rparr>"
    if "x \<in> set (schedule s)" for x
  proof
    assume cl: "faculty_clash x \<lparr>ss_course = c, ss_session_type = st, ss_time_slot = ts, ss_room = r,
       ss_faculty_name = faculty_name c, ss_session_number = n, ss_basket = basket c\<rparr>"
    then have "slot_in (ss_time_slot x) (faculty_schedule s (faculty_name c) (semester_half c))"
      using tr that by (auto simp: faculty_clash_def)
    moreover have "slot_eq (ss_time_slot x) ts" using cl by (simp add: faculty_clash_def)
    ultimately show False using free slot_in_eq by blast
  qed
  show ?thesis
    unfolding inv_faculty_def
    using tr sw new
    by (auto simp: schedule_commit faculty_schedule_commit slot_in_append slot_in_single
          slot_eq_refl sorted_wrt_append)
qed

lemma inv_student_commit:
  assumes I: "inv_student s" and A: "fst (fst (check_constraints s c st ts r))"
  shows "inv_student (commit s c st n ts r)"
proof -
  have free: "\<not> slot_in ts (student_schedule s (get_student_key c) (semester_half c))"
    using check_accept(4) [OF A] .
  have tr: "\<forall>x \<in> set (schedule s). slot_in (ss_time_slot x)
           (student_schedule s (get_student_key (ss_course x)) (semester_half (ss_course x)))"
    and sw: "sorted_wrt (\<lambda>x y. \<not> student_clash x y) (schedule s)"
    using I by (simp_all add: inv_student_def)
  have new: "\<not> student_clash x \<lparr>ss_course = c, ss_session_type = st, ss_time_slot = ts, ss_room = r,
       ss_faculty_name = faculty_name c, ss_session_number = n, ss_basket = basket c\<rparr>"
    if "x \<in> set (schedule s)" for x
  proof
    assume cl: "student_clash x \<lparr>ss_course = c, ss_session_type = st, ss_time_slot = ts, ss_room = r,
       ss_faculty_name = faculty_name c, ss_session_number = n, ss_basket = basket c\<rparr>"
    then have "slot_in (ss_time_slot x) (student_schedule s (get_student_key c) (semester_half c))"
      using tr that by (auto simp: student_clash_def)
    moreover have "slot_eq (ss_time_slot x) ts" using cl by (simp add: student_clash_def)
    ultimately show False using free slot_in_eq by blast
  qed
  show ?thesis
    unfolding inv_student_def
    using tr sw new
    by (auto simp: schedule_commit student_schedule_commit slot_in_append slot_in_single
          slot_eq_refl sorted_wrt_append)
qed

lemma inv_room_commit:
  assumes I: "inv_room s" and A: "fst (fst (check_constraints s c st ts r))"
    and H: "recognized_half c"
  shows "inv_room (commit s c st n ts r)"
proof -
  have free: "\<not> slot_in ts (room_schedule s (room_id r) h)"
    if "h = ''Sem-I'' \<or> h = ''Sem-II''" for h
    using check_accept(2,3) [OF A] that by blast
  have tr: "\<forall>x \<in> set (schedule s). recognized_half (ss_course x) \<and> slot_in (ss_time_slot x)
           (room_schedule s (room_id (ss_room x)) (semester_half (ss_course x)))"
    and sw: "sorted_wrt (\<lambda>x y. \<not> room_clash x y) (schedule s)"
    using I by (simp_all add: inv_room_def)
  have new: "\<not> room_clash x \<lparr>ss_course = c, ss_session_type = st, ss_time_slot = ts, ss_room = r,
       ss_faculty_name = faculty_name c, ss_session_number = n, ss_basket = basket c\<rparr>"
    if "x \<in> set (schedule s)" for x
  proof
    assume cl: "room_clash x \<lparr>ss_course = c, ss_session_type = st, ss_time_slot = ts, ss_room = r,
       ss_faculty_name = faculty_name c, ss_session_number = n, ss_basket = basket c\<rparr>"
    have "recognized_half (ss_course x)" using tr that by blast
    then have h: "semester_half (ss_course x) = ''Sem-I'' \<or> semester_half (ss_course x) = ''Sem-II''"
      by (simp add: recognized_half_def)
    have "slot_in (ss_time_slot x) (room_schedule s (room_id r) (semester_half (ss_course x)))"
      using tr that cl by (auto simp: room_clash_def)
    moreover have "slot_eq (ss_time_slot x) ts" using cl by (simp add: room_clash_def)
    ultimately show False using free [OF h] slot_in_eq by blast
  qed
  show ?thesis
    unfolding inv_room_def
    using tr sw new H
    by (auto simp: schedule_commit room_schedule_commit slot_in_append slot_in_single
          slot_eq_refl sorted_wrt_append)
qed

lemma daily_ok_snoc:
  assumes "daily_ok l" "length l < 2"
    and "\<And>e. l = [e] \<Longrightarrow> e \<noteq> st \<and> \<not> (e = LECTURE \<and> st = TUTORIAL) \<and> \<not> (e = TUTORIAL \<and> st = LECTURE)"
  shows "daily_ok (l @ [st])"
proof (cases l)
  case Nil
  then show ?thesis by (simp add: daily_ok_def)
next
  case (Cons e l')
  then have "l = [e]" using assms(2) by (cases l') auto
  then show ?thesis using assms(3) [of e] by (auto simp: daily_ok_def)
qed

lemma inv_daily_commit:
  assumes I: "inv_daily s" and A: "fst (fst (check_constraints s c st ts r))"
  shows "inv_daily (commit s c st n ts r)"
proof -
  have d0: "daily_ok (course_daily_schedule s (course_id c) (day ts))"
    using I unfolding inv_daily_def by blast
  have ok: "daily_ok (course_daily_schedule s (course_id c) (day ts) @ [st])"
    by (rule daily_ok_snoc [OF d0 check_accept(5) [OF A] check_accept(6) [OF A]])
  have eq: "course_daily_schedule s cid d = map ss_session_type (sessions_on s cid d)"
    and dk: "daily_ok (course_daily_schedule s cid d)" for cid d
    using I unfolding inv_daily_def by blast+
  have "course_daily_schedule (commit s c st n ts r) cid d
          = map ss_session_type (sessions_on (commit s c st n ts r) cid d)
        \<and> daily_ok (course_daily_schedule (commit s c st n ts r) cid d)" for cid d
  proof (cases "cid = course_id c \<and> d = day ts")
    case True
    then show ?thesis using ok eq [of cid d]
      by (simp add: course_daily_schedule_commit sessions_on_def schedule_commit)
  next
    case False
    then show ?thesis using dk [of cid d] eq [of cid d]
      by (auto simp: course_daily_schedule_commit sessions_on_def schedule_commit)
  qed
  then show ?thesis unfolding inv_daily_def by blast
qed

lemma inv_duration_commit:
  assumes I: "inv_duration s" and A: "fst (fst (check_constraints s c st ts r))"
  shows "inv_duration (commit s c st n ts r)"
  using I check_accept(7) [OF A]
  by (auto simp: inv_duration_def schedule_commit)

subsection \<open>The baskets only touch the \<open>basket\<close> field\<close>

lemma only_basket_differs_refl: "only_basket_differs c c"
  by (simp add: only_basket_differs_def)

lemma only_basket_differs_set:
  "only_basket_differs c c' \<Longrightarrow> only_basket_differs c (c'\<lparr>basket := b\<rparr>)"
  by (simp add: only_basket_differs_def)

lemma assign_members_frame:
  "list_all2 only_basket_differs cs (fst st)
     \<Longrightarrow> list_all2 only_basket_differs cs (fst (assign_members b ms st))"
proof (induction ms arbitrary: st)
  case Nil
  then show ?case by (simp add: assign_members_def)
next
  case (Cons i ms)
  obtain xs bk where st: "st = (xs, bk)" by (cases st)
  have "list_all2 only_basket_differs cs (xs[i := (xs ! i)\<lparr>basket := Some b\<rparr>])"
  proof (cases "i < length xs")
    case True
    then have "only_basket_differs (cs ! i) ((xs ! i)\<lparr>basket := Some b\<rparr>)"
      using Cons.prems st by (simp add: list_all2_nthD2 only_basket_differs_set)
    then show ?thesis
      using list_all2_update_cong [of only_basket_differs cs xs "cs ! i" _ i] Cons.prems st
      by simp
  next
    case False
    then show ?thesis using Cons.prems st by (simp add: list_update_beyond)
  qed
  then show ?case
    using Cons.IH [of "(xs[i := (xs ! i)\<lparr>basket := Some b\<rparr>], dict_append b i bk)"]
    by (simp add: assign_members_def st)
qed

lemma assign_baskets_frame:
  "list_all2 only_basket_differs cs (fst st)
     \<Longrightarrow> list_all2 only_basket_differs cs (fst (assign_baskets g n st))"
proof (induction g arbitrary: n st)
  case Nil
  then show ?case by simp
next
  case (Cons a g)
  obtain k ms where a: "a = (k, ms)" by (cases a)
  show ?case using Cons.IH Cons.prems assign_members_frame
    by (simp add: a)
qed

lemma detect_baskets_frame:
  "list_all2 only_basket_differs cs (fst (detect_baskets cs))"
  unfolding detect_baskets_def
  by (rule assign_baskets_frame) (simp add: list_all2_refl only_basket_differs_refl)

lemma detect_baskets_length: "length (fst (detect_baskets cs)) = length cs"
  using detect_baskets_frame [of cs] by (simp add: list_all2_lengthD)

lemma detect_baskets_member:
  assumes "c' \<in> set (fst (detect_baskets cs))"
  shows "\<exists>c \<in> set cs. only_basket_differs c c'"
proof -
  obtain i where i: "i < length (fst (detect_baskets cs))" "c' = fst (detect_baskets cs) ! i"
    using assms by (auto simp: in_set_conv_nth)
  then have "only_basket_differs (cs ! i) c'"
    using detect_baskets_frame [of cs] by (simp add: list_all2_nthD2)
  moreover have "cs ! i \<in> set cs" using i detect_baskets_length by simp
  ultimately show ?thesis by blast
qed

lemma only_basket_differs_fields:
  assumes "only_basket_differs c c'"
  shows "semester_half c' = semester_half c" "lectures c' = lectures c"
    "tutorials c' = tutorials c" "practicals c' = practicals c"
    "is_elective c' = is_elective c" "semester c' = semester c" "branch c' = branch c"
proof -
  have "c = c'\<lparr>basket := basket c\<rparr>" using assms by (simp add: only_basket_differs_def)
  then obtain b where c: "c = c'\<lparr>basket := b\<rparr>" by blast
  show "semester_half c' = semester_half c" "lectures c' = lectures c"
    "tutorials c' = tutorials c" "practicals c' = practicals c"
    "is_elective c' = is_elective c" "semester c' = semester c" "branch c' = branch c"
    by (simp_all add: c)
qed

subsection \<open>Runs\<close>

lemma generate_timetable_preserves:
  assumes R: "\<And>s f. P s \<Longrightarrow> P (s\<lparr>conflict_reasons := f\<rparr>)"
    and F: "\<And>s x. P s \<Longrightarrow> P (s\<lparr>conflicts := x\<rparr>)"
    and C: "\<And>s c st n ts r. P s \<Longrightarrow> c \<in> set cs0
              \<Longrightarrow> fst (fst (check_constraints s c st ts r)) \<Longrightarrow> P (commit s c st n ts r)"
    and S: "set (courses s) \<subseteq> set cs0"
  shows "P s \<Longrightarrow> P (snd (generate_timetable s))"
  unfolding generate_timetable_def
  using schedule_courses_preserves [of P "sort_key course_sort_key (courses s)", OF R F] C S
  by (simp add: subset_iff)

lemma init_fields:
  "schedule (init cs rs) = []" "conflicts (init cs rs) = []"
  "faculty_schedule (init cs rs) = (\<lambda>_ _. [])" "room_schedule (init cs rs) = (\<lambda>_ _. [])"
  "student_schedule (init cs rs) = (\<lambda>_ _. [])"
  "course_daily_schedule (init cs rs) = (\<lambda>_ _. [])"
  "courses (init cs rs) = fst (detect_baskets cs)" "rooms (init cs rs) = rs"
  by (simp_all add: init_def)

lemma inv_reasons:
  "inv_duration (s\<lparr>conflict_reasons := f\<rparr>) = inv_duration s"
  "inv_daily (s\<lparr>conflict_reasons := f\<rparr>) = inv_daily s"
  "inv_faculty (s\<lparr>conflict_reasons := f\<rparr>) = inv_faculty s"
  "inv_room (s\<lparr>conflict_reasons := f\<rparr>) = inv_room s"
  "inv_student (s\<lparr>conflict_reasons := f\<rparr>) = inv_student s"
  by (simp_all add: inv_duration_def inv_daily_def inv_faculty_def inv_room_def inv_student_def
        sessions_on_def)

lemma inv_conflicts:
  "inv_duration (s\<lparr>conflicts := x\<rparr>) = inv_duration s"
  "inv_daily (s\<lparr>conflicts := x\<rparr>) = inv_daily s"
  "inv_faculty (s\<lparr>conflicts := x\<rparr>) = inv_faculty s"
  "inv_room (s\<lparr>conflicts := x\<rparr>) = inv_room s"
  "inv_student (s\<lparr>conflicts := x\<rparr>) = inv_student s"
  by (simp_all add: inv_duration_def inv_daily_def inv_faculty_def inv_room_def inv_student_def
        sessions_on_def)

lemma inv_duration_run: "inv_duration (run cs rs)"
  unfolding run_def
proof (rule generate_timetable_preserves [where P = inv_duration and ?cs0.0 = "courses (init cs rs)"])
  show "inv_duration (init cs rs)" by (simp add: inv_duration_def init_fields)
  show "inv_duration (commit s c st n ts r)"
    if "inv_duration s" and "fst (fst (check_constraints s c st ts r))" for s c st n ts r
    using that by (rule inv_duration_commit)
qed (simp_all add: inv_reasons inv_conflicts)

lemma inv_daily_run: "inv_daily (run cs rs)"
  unfolding run_def
proof (rule generate_timetable_preserves [where P = inv_daily and ?cs0.0 = "courses (init cs rs)"])
  show "inv_daily (init cs rs)"
    by (simp add: inv_daily_def init_fields sessions_on_def daily_ok_def)
  show "inv_daily (commit s c st n ts r)"
    if "inv_daily s" and "fst (fst (check_constraints s c st ts r))" for s c st n ts r
    using that by (rule inv_daily_commit)
qed (simp_all add: inv_reasons inv_conflicts)

lemma inv_faculty_run: "inv_faculty (run cs rs)"
  unfolding run_def
proof (rule generate_timetable_preserves [where P = inv_faculty and ?cs0.0 = "courses (init cs rs)"])
  show "inv_faculty (init cs rs)" by (simp add: inv_faculty_def init_fields)
  show "inv_faculty (commit s c st n ts r)"
    if "inv_faculty s" and "fst (fst (check_constraints s c st ts r))" for s c st n ts r
    using that by (rule inv_faculty_commit)
qed (simp_all add: inv_reasons inv_conflicts)

lemma inv_student_run: "inv_student (run cs rs)"
  unfolding run_def
proof (rule generate_timetable_preserves [where P = inv_student and ?cs0.0 = "courses (init cs rs)"])
  show "inv_student (init cs rs)" by (simp add: inv_student_def init_fields)
  show "inv_student (commit s c st n ts r)"
    if "inv_student s" and "fst (fst (check_constraints s c st ts r))" for s c st n ts r
    using that by (rule inv_student_commit)
qed (simp_all add: inv_reasons inv_conflicts)

lemma inv_room_run:
  assumes "\<forall>c \<in> set cs. recognized_half c"
  shows "inv_room (run cs rs)"
  unfolding run_def
proof (rule generate_timetable_preserves [where P = inv_room and ?cs0.0 = "courses (init cs rs)"])
  show "inv_room (init cs rs)" by (simp add: inv_room_def init_fields)
  show "inv_room (commit s c st n ts r)"
    if I: "inv_room s" and M: "c \<in> set (courses (init cs rs))"
      and A: "fst (fst (check_constraints s c st ts r))"
    for s c st n ts r
  proof -
    obtain c0 where "c0 \<in> set cs" "only_basket_differs c0 c"
      using M detect_baskets_member by (auto simp: init_fields)
    then have "recognized_half c"
      using assms only_basket_differs_fields(1) [of c0 c] by (auto simp: recognized_half_def)
    then show ?thesis using I A inv_room_commit by blast
  qed
qed (simp_all add: inv_reasons inv_conflicts)

subsection \<open>Evaluation of concrete runs\<close>

lemma group_by_duration_fold:
  "fold (\<lambda>slot m. m(duration_hours slot := m (duration_hours slot) @ [slot])) slots m0 d
     = m0 d @ filter (\<lambda>x. duration_hours x = d) slots"
  by (induction slots arbitrary: m0) auto

lemma group_by_duration_filter:
  "group_by_duration slots d = filter (\<lambda>x. duration_hours x = d) slots"
  by (simp add: group_by_duration_def group_by_duration_fold)

lemma lecture_slots:
  "group_by_duration generate_time_slots (3/2) =
     concat (map (\<lambda>d. [mk_slot d (9, 0) (10, 30) (3/2), mk_slot d (11, 0) (12, 30) (3/2),
        mk_slot d (14, 0) (15, 30) (3/2), mk_slot d (16, 0) (17, 30) (3/2)]) days)"
  by (simp add: group_by_duration_filter generate_time_slots_def days_def day_slots_def mk_slot_def)

lemma tutorial_slots:
  "group_by_duration generate_time_slots 1 =
     concat (map (\<lambda>d. [mk_slot d (9, 0) (10, 0) 1, mk_slot d (10, 30) (11, 30) 1,
        mk_slot d (11, 30) (12, 30) 1, mk_slot d (14, 0) (15, 0) 1,
        mk_slot d (15, 30) (16, 30) 1, mk_slot d (16, 30) (17, 30) 1]) days)"
  by (simp add: group_by_duration_filter generate_time_slots_def days_def day_slots_def mk_slot_def)

lemma practical_slots:
  "group_by_duration generate_time_slots 2 =
     concat (map (\<lambda>d. [mk_slot d (9, 0) (11, 0) 2, mk_slot d (11, 0) (13, 0) 2,
        mk_slot d (14, 0) (16, 0) 2, mk_slot d (16, 0) (18, 0) 2]) days)"
  by (simp add: group_by_duration_filter generate_time_slots_def days_def day_slots_def mk_slot_def)

lemma str_nat_digit: "n < 10 \<Longrightarrow> str_nat n = [digit_char n]"
  by (simp add: str_nat.simps)

lemmas run_eval = run_def generate_timetable_def init_def detect_baskets_def elective_groups_def
  assign_members_def schedule_course_def sessions_needed_def
  upto_rec1 schedule_session_def get_suitable_rooms_def classify_big_def classify_regular_def
  classify_labs_def is_lab_def upper_def upper_char_def Let_def required_def
  lecture_slots tutorial_slots practical_slots days_def mk_slot_def
  check_constraints_def slot_in_def slot_eq_def commit_def count_reason_def get_student_key_def
  str_int_def str_nat_digit digit_char_def

lemma demo_run_schedule:
  "schedule (run [demo_course] [demo_room, demo_lab]) =
     [demo_session LECTURE (mk_slot ''Monday'' (9, 0) (10, 30) (3/2)) demo_room 1,
      demo_session LECTURE (mk_slot ''Tuesday'' (9, 0) (10, 30) (3/2)) demo_room 2,
      demo_session PRACTICAL (mk_slot ''Monday'' (9, 0) (11, 0) 2) demo_lab 1]"
  by (simp add: run_eval demo_course_def demo_room_def demo_lab_def demo_session_def)

lemma demo_run_conflicts: "conflicts (run [demo_course] [demo_room, demo_lab]) = []"
  by (simp add: run_eval demo_course_def demo_room_def demo_lab_def demo_session_def)

subsection \<open>No clashes after a run\<close>

lemma insort_same_key: "f a = f b \<Longrightarrow> sort_key f [a, b] = [a, b]"
  by simp

lemma half_run_schedule:
  assumes "h \<noteq> ''Sem-I''" "h \<noteq> ''Sem-II''"
  shows "schedule (run [half_course h ''A'', half_course h ''B''] [demo_room]) =
     [\<lparr>ss_course = half_course h ''A'', ss_session_type = LECTURE,
       ss_time_slot = mk_slot ''Monday'' (9, 0) (10, 30) (3/2), ss_room = demo_room,
       ss_faculty_name = ''A'', ss_session_number = 1, ss_basket = None\<rparr>,
      \<lparr>ss_course = half_course h ''B'', ss_session_type = LECTURE,
       ss_time_slot = mk_slot ''Monday'' (9, 0) (10, 30) (3/2), ss_room = demo_room,
       ss_faculty_name = ''B'', ss_session_number = 1, ss_basket = None\<rparr>]"
proof -
  have h: "''Sem-I'' \<noteq> h" "''Sem-II'' \<noteq> h" using assms by auto
  show ?thesis
    using assms h
    by (simp add: run_eval half_course_def demo_room_def course_sort_key_def)
qed

lemma no_clash_run:
  assumes "i < j" "j < length (schedule (run cs rs))"
  shows "\<not> faculty_clash (schedule (run cs rs) ! i) (schedule (run cs rs) ! j)"
    and "\<not> student_clash (schedule (run cs rs) ! i) (schedule (run cs rs) ! j)"
    and "\<forall>c \<in> set cs. recognized_half c
           \<Longrightarrow> \<not> room_clash (schedule (run cs rs) ! i) (schedule (run cs rs) ! j)"
  using inv_faculty_run [of cs rs] inv_student_run [of cs rs] inv_room_run [of cs rs] assms
  by (auto simp: inv_faculty_def inv_student_def inv_room_def sorted_wrt_iff_nth_less)

subsection \<open>Every required session is placed or reported\<close>

lemma check_keeps:
  "schedule (snd (check_constraints s c st ts r)) = schedule s"
  "conflicts (snd (check_constraints s c st ts r)) = conflicts s"
  by (simp_all add: check_constraints_def count_reason_def Let_def)

lemma try_rooms_count:
  "length (schedule (snd (try_rooms s c st n ts rs)))
     = length (schedule s) + (if fst (try_rooms s c st n ts rs) then 1 else 0)
   \<and> conflicts (snd (try_rooms s c st n ts rs)) = conflicts s"
proof (induction rs arbitrary: s)
  case Nil
  then show ?case by simp
next
  case (Cons r rs)
  obtain v m s' where cc: "check_constraints s c st ts r = ((v, m), s')"
    by (metis surj_pair)
  have k: "schedule s' = schedule s" "conflicts s' = conflicts s"
    using check_keeps [of s c st ts r] cc by simp_all
  show ?case using Cons.IH [of s'] k
    by (simp add: cc commit_def Let_def)
qed

lemma try_slots_count:
  "length (schedule (snd (try_slots s c st n tss rs)))
     = length (schedule s) + (if fst (try_slots s c st n tss rs) then 1 else 0)
   \<and> conflicts (snd (try_slots s c st n tss rs)) = conflicts s"
proof (induction tss arbitrary: s)
  case Nil
  then show ?case by simp
next
  case (Cons ts tss)
  obtain b s' where tr: "try_rooms s c st n ts rs = (b, s')" by (cases "try_rooms s c st n ts rs")
  show ?case using try_rooms_count [of s c st n ts rs] Cons.IH [of s']
    by (simp add: tr)
qed

lemma schedule_session_count:
  "length (schedule (snd (schedule_session s c st n)))
     = length (schedule s) + (if fst (schedule_session s c st n) then 1 else 0)
   \<and> conflicts (snd (schedule_session s c st n)) = conflicts s"
  using try_slots_count [of s c st n]
  by (simp add: schedule_session_def Let_def count_reason_def)

lemma schedule_numbers_count:
  "booked (snd (schedule_numbers s c st nums k)) = booked s + length nums"
proof (induction nums arbitrary: s k)
  case Nil
  then show ?case by simp
next
  case (Cons n nums)
  obtain b s' where ss: "schedule_session s c st n = (b, s')"
    by (cases "schedule_session s c st n")
  have "length (schedule s') = length (schedule s) + (if b then 1 else 0)"
    and "conflicts s' = conflicts s"
    using schedule_session_count [of s c st n] ss by simp_all
  then show ?case using Cons.IH
    by (simp add: ss booked_def)
qed

lemma schedule_types_count:
  "booked (snd (schedule_types s c needed k)) = booked s + (\<Sum>p\<leftarrow>needed. nat (snd p))"
proof (induction needed arbitrary: s k)
  case Nil
  then show ?case by simp
next
  case (Cons a needed)
  obtain st cnt where a: "a = (st, cnt)" by (cases a)
  obtain k' s' where sn: "schedule_numbers s c st [1..cnt] k = (k', s')"
    by (cases "schedule_numbers s c st [1..cnt] k")
  have "booked s' = booked s + nat cnt"
    using schedule_numbers_count [of s c st "[1..cnt]" k] sn by simp
  then show ?case using Cons.IH [of s' k'] by (simp add: a sn)
qed


lemma schedule_course_count:
  "booked (snd (schedule_course s c)) = booked s + sessions_required c"
  by (simp only: schedule_course_def schedule_types_count)
    (simp add: sessions_needed_def sessions_required_def)

lemma schedule_courses_count:
  "booked (snd (schedule_courses s cs k)) = booked s + (\<Sum>c\<leftarrow>cs. sessions_required c)"
proof (induction cs arbitrary: s k)
  case Nil
  then show ?case by simp
next
  case (Cons c cs)
  obtain n s' where sc: "schedule_course s c = (n, s')" by (cases "schedule_course s c")
  have "booked s' = booked s + sessions_required c"
    using schedule_course_count [of s c] sc by simp
  then show ?case using Cons.IH [of s'] by (simp add: sc)
qed

lemma sum_list_sort_key:
  "(\<Sum>c\<leftarrow>sort_key f xs. (g c :: nat)) = (\<Sum>c\<leftarrow>xs. g c)"
proof -
  have "mset (map g (sort_key f xs)) = mset (map g xs)" by simp
  then show ?thesis by (metis sum_mset_sum_list)
qed

lemma sessions_required_frame:
  "list_all2 only_basket_differs cs cs'
     \<Longrightarrow> (\<Sum>c\<leftarrow>cs'. sessions_required c) = (\<Sum>c\<leftarrow>cs. sessions_required c)"
proof (induction rule: list_all2_induct)
  case Nil
  then show ?case by simp
next
  case (Cons x xs y ys)
  then show ?case
    using only_basket_differs_fields(2,3,4) [of x y] by (simp add: sessions_required_def)
qed

lemma run_count:
  "booked (run cs rs) = (\<Sum>c\<leftarrow>cs. sessions_required c)"
proof -
  have "booked (run cs rs) = booked (init cs rs) + (\<Sum>c\<leftarrow>courses (init cs rs). sessions_required c)"
    by (simp add: run_def generate_timetable_def schedule_courses_count sum_list_sort_key)
  then show ?thesis
    using sessions_required_frame [OF detect_baskets_frame [of cs]]
    by (simp add: booked_def init_fields)
qed

subsection \<open>The state after the example run\<close>

lemma char_of_49: "char_of (49::nat) = CHR ''1''"
  by code_simp

lemma demo_run_trackers:
  "faculty_schedule (run [demo_course] [demo_room, demo_lab]) ''Rao'' ''Sem-I'' =
     [mk_slot ''Monday'' (9, 0) (10, 30) (3/2), mk_slot ''Tuesday'' (9, 0) (10, 30) (3/2),
      mk_slot ''Monday'' (9, 0) (11, 0) 2]"
  "room_schedule (run [demo_course] [demo_room, demo_lab]) ''C101'' ''Sem-I'' =
     [mk_slot ''Monday'' (9, 0) (10, 30) (3/2), mk_slot ''Tuesday'' (9, 0) (10, 30) (3/2)]"
  "room_schedule (run [demo_course] [demo_room, demo_lab]) ''C101'' ''Sem-II'' = []"
  "student_schedule (run [demo_course] [demo_room, demo_lab]) ''CSE_Year1'' ''Sem-I'' =
     [mk_slot ''Monday'' (9, 0) (10, 30) (3/2), mk_slot ''Tuesday'' (9, 0) (10, 30) (3/2),
      mk_slot ''Monday'' (9, 0) (11, 0) 2]"
  "course_daily_schedule (run [demo_course] [demo_room, demo_lab]) ''COURSE_1'' ''Monday''
     = [LECTURE, PRACTICAL]"
  by (simp_all add: run_eval char_of_49 demo_course_def demo_room_def demo_lab_def)

lemma demo_keys:
  "faculty_name demo_course = ''Rao''" "semester_half demo_course = ''Sem-I''"
  "course_id demo_course = ''COURSE_1''" "get_student_key demo_course = ''CSE_Year1''"
  "room_id demo_room = ''C101''"
  by (simp_all add: demo_course_def demo_room_def get_student_key_def str_int_def str_nat_digit
        digit_char_def char_of_49)

subsection \<open>Room categories\<close>

lemma classify_sets:
  "set (classify_big rs) = {r \<in> set rs. capacity r \<ge> 100}"
  "set (classify_regular rs) = {r \<in> set rs. capacity r < 100 \<and> \<not> startswith (room_id r) ''L''}"
  "set (classify_labs rs) = {r \<in> set rs. is_lab r}"
  by (auto simp: classify_big_def classify_regular_def classify_labs_def)

lemma classify_sorted:
  "sorted (map (\<lambda>r. - capacity r) (classify_big rs))"
  "sorted (map (\<lambda>r. - capacity r) (classify_regular rs))"
  by (simp_all add: classify_big_def classify_regular_def)

lemma demo_is_lab: "\<not> is_lab demo_room" "is_lab demo_lab" "is_lab big_lab" "is_lab marker_lab"
  by (simp_all add: is_lab_def demo_room_def demo_lab_def big_lab_def marker_lab_def upper_def
        upper_char_def)

subsection \<open>A single course and a single room\<close>

lemma detect_baskets_single: "detect_baskets [c] = ([c], [])"
  by (simp add: detect_baskets_def elective_groups_def)

lemma suitable_single:
  assumes "capacity r \<ge> num_students c" "capacity r \<ge> 100 \<or> \<not> startswith (room_id r) ''L''"
  shows "get_suitable_rooms (init [c] [r]) c LECTURE = [r]"
  using assms
  by (auto simp: get_suitable_rooms_def init_def classify_big_def classify_regular_def)

subsection \<open>Decimal numerals are injective\<close>

lemma digit_char_inj: "a < 10 \<Longrightarrow> b < 10 \<Longrightarrow> digit_char a = digit_char b \<Longrightarrow> a = b"
proof -
  assume a: "a < 10" and b: "b < 10" and e: "digit_char a = digit_char b"
  have "(of_char (digit_char a) :: nat) = of_char (digit_char b)" using e by simp
  then have "(48 + a) mod 256 = (48 + b) mod 256"
    by (simp add: digit_char_def of_char_of)
  then show "a = b" using a b by simp
qed

lemma str_nat_length: "length (str_nat n) = 1 \<longleftrightarrow> n < 10"
proof (induction n rule: str_nat.induct)
  case (1 n)
  show ?case
  proof (cases "n < 10")
    case True
    then show ?thesis by (simp add: str_nat.simps [of n])
  next
    case False
    then have "str_nat (n div 10) \<noteq> []"
      by (simp add: str_nat.simps [of "n div 10"])
    then show ?thesis using False by (simp add: str_nat.simps [of n])
  qed
qed

lemma str_nat_inj: "str_nat m = str_nat n \<Longrightarrow> m = n"
proof (induction m arbitrary: n rule: str_nat.induct)
  case (1 m)
  show ?case
  proof (cases "m < 10")
    case True
    then have "length (str_nat n) = 1" using "1.prems" str_nat_length [of m] by simp
    then have n: "n < 10" using str_nat_length [of n] by simp
    then show ?thesis using True "1.prems" digit_char_inj
      by (simp add: str_nat.simps [of m] str_nat.simps [of n])
  next
    case False
    then have "length (str_nat n) \<noteq> 1" using "1.prems" str_nat_length [of m] by simp
    then have n: "\<not> n < 10" using str_nat_length [of n] by simp
    have "str_nat (m div 10) @ [digit_char (m mod 10)] = str_nat (n div 10) @ [digit_char (n mod 10)]"
      using "1.prems" False n by (simp add: str_nat.simps [of m] str_nat.simps [of n])
    then have a: "str_nat (m div 10) = str_nat (n div 10)"
      and b: "digit_char (m mod 10) = digit_char (n mod 10)" by simp_all
    have "m div 10 = n div 10" using "1.IH" [OF False a] .
    moreover have "m mod 10 = n mod 10" using digit_char_inj [OF _ _ b] by simp
    ultimately show ?thesis by (metis div_mult_mod_eq)
  qed
qed

subsection \<open>The groups of electives\<close>

lemma dict_append_keys:
  "map fst (dict_append k v d) = (if k \<in> set (map fst d) then map fst d else map fst d @ [k])"
  by (induction d) force+

lemma dict_append_map_of:
  "map_of (dict_append k v d)
     = (map_of d)(k \<mapsto> (case map_of d k of None \<Rightarrow> [v] | Some vs \<Rightarrow> vs @ [v]))"
  by (induction d) (auto simp: fun_eq_iff)

lemma collect_groups_snoc:
  "collect_groups (cs @ [c]) i g =
     (if is_elective c then dict_append (elective_key c) (i + length cs) (collect_groups cs i g)
      else collect_groups cs i g)"
  by (induction cs arbitrary: i g) auto

lemma elective_groups_snoc:
  "elective_groups (cs @ [c]) =
     (if is_elective c then dict_append (elective_key c) (length cs) (elective_groups cs)
      else elective_groups cs)"
  by (simp add: elective_groups_def collect_groups_snoc)

lemma members_snoc:
  "members (cs @ [c]) k
     = members cs k @ (if is_elective c \<and> elective_key c = k then [length cs] else [])"
proof -
  have "filter (\<lambda>j. is_elective ((cs @ [c]) ! j) \<and> elective_key ((cs @ [c]) ! j) = k) [0..<length cs]
      = filter (\<lambda>j. is_elective (cs ! j) \<and> elective_key (cs ! j) = k) [0..<length cs]"
    by (rule filter_cong) (auto simp: nth_append)
  then show ?thesis by (simp add: members_def)
qed

lemma elective_groups_char:
  "distinct (map fst (elective_groups cs))
   \<and> (\<forall>k. map_of (elective_groups cs) k
            = (if members cs k = [] then None else Some (members cs k)))"
proof (induction cs rule: rev_induct)
  case Nil
  then show ?case by (simp add: elective_groups_def members_def)
next
  case (snoc c cs)
  show ?case
  proof (cases "is_elective c")
    case False
    then show ?thesis using snoc by (simp add: elective_groups_snoc members_snoc)
  next
    case True
    have d: "distinct (map fst (elective_groups (cs @ [c])))"
      using snoc True by (simp add: elective_groups_snoc dict_append_keys)
    have ih: "map_of (elective_groups cs) k
            = (if members cs k = [] then None else Some (members cs k))" for k
      using snoc by blast
    have "map_of (elective_groups (cs @ [c])) k
            = (if members (cs @ [c]) k = [] then None else Some (members (cs @ [c]) k))" for k
      by (simp add: elective_groups_snoc True dict_append_map_of members_snoc ih)
    then show ?thesis using d by blast
  qed
qed

lemma elective_groups_members:
  assumes "(k, ms) \<in> set (elective_groups cs)"
  shows "ms = members cs k" "ms \<noteq> []"
proof -
  have "map_of (elective_groups cs) k = Some ms"
    using assms elective_groups_char [of cs] by simp
  then have "(if members cs k = [] then None else Some (members cs k)) = Some ms"
    using elective_groups_char [of cs] by simp
  then show "ms = members cs k" "ms \<noteq> []" by (auto split: if_splits)
qed

lemma members_iff:
  "j \<in> set (members cs k) \<longleftrightarrow> j < length cs \<and> is_elective (cs ! j) \<and> elective_key (cs ! j) = k"
  by (auto simp: members_def)

lemma members_distinct: "distinct (members cs k)"
  by (simp add: members_def)

subsection \<open>The assignment of basket ids\<close>

lemma assign_members_length: "length (fst (assign_members b ms st)) = length (fst st)"
proof (induction ms arbitrary: st)
  case Nil
  then show ?case by (simp add: assign_members_def)
next
  case (Cons i ms)
  obtain xs bk where st: "st = (xs, bk)" by (cases st)
  show ?case
    using Cons.IH [of "(xs[i := (xs ! i)\<lparr>basket := Some b\<rparr>], dict_append b i bk)"]
    by (simp add: assign_members_def st)
qed

lemma assign_members_nth:
  "j < length (fst st) \<Longrightarrow>
   fst (assign_members b ms st) ! j
     = (if j \<in> set ms then (fst st ! j)\<lparr>basket := Some b\<rparr> else fst st ! j)"
proof (induction ms arbitrary: st)
  case Nil
  then show ?case by (simp add: assign_members_def)
next
  case (Cons i ms)
  obtain xs bk where st: "st = (xs, bk)" by (cases st)
  let ?xs = "xs[i := (xs ! i)\<lparr>basket := Some b\<rparr>]"
  have j: "j < length xs" using Cons.prems st by simp
  have step: "fst (assign_members b (i # ms) st) = fst (assign_members b ms (?xs, dict_append b i bk))"
    by (simp add: assign_members_def st)
  have ih: "fst (assign_members b ms (?xs, dict_append b i bk)) ! j
     = (if j \<in> set ms then (?xs ! j)\<lparr>basket := Some b\<rparr> else ?xs ! j)"
    using Cons.IH [of "(?xs, dict_append b i bk)"] j by simp
  have e: "fst (assign_members b (i # ms) st) ! j
     = (if j \<in> set ms then (?xs ! j)\<lparr>basket := Some b\<rparr> else ?xs ! j)"
    by (simp only: step ih)
  have x: "?xs ! j = (if j = i then (xs ! j)\<lparr>basket := Some b\<rparr> else xs ! j)"
    using j by (simp add: nth_list_update)
  show ?case unfolding e x by (auto simp: st)
qed

lemma assign_baskets_length: "length (fst (assign_baskets g n st)) = length (fst st)"
proof (induction g arbitrary: n st)
  case Nil
  then show ?case by simp
next
  case (Cons a g)
  obtain k ms where a: "a = (k, ms)" by (cases a)
  show ?case using Cons.IH by (simp add: a assign_members_length)
qed

lemma assign_baskets_unchanged:
  assumes "\<forall>g' \<in> set g. length (snd g') > 1 \<longrightarrow> j \<notin> set (snd g')" and "j < length (fst st)"
  shows "fst (assign_baskets g n st) ! j = fst st ! j"
  using assms
proof (induction g arbitrary: n st)
  case Nil
  then show ?case by simp
next
  case (Cons a g)
  obtain k ms where a: "a = (k, ms)" by (cases a)
  show ?case
  proof (cases "length ms > 1")
    case True
    then have "j \<notin> set ms" using Cons.prems(1) a by simp
    then have "fst (assign_members (''B'' @ str_nat n) ms st) ! j = fst st ! j"
      using assign_members_nth [OF Cons.prems(2)] by simp
    moreover have "fst (assign_baskets g (n + 1) (assign_members (''B'' @ str_nat n) ms st)) ! j
        = fst (assign_members (''B'' @ str_nat n) ms st) ! j"
      using Cons.IH [of "assign_members (''B'' @ str_nat n) ms st" "n + 1"] Cons.prems
      by (simp add: assign_members_length)
    ultimately show ?thesis using True by (simp add: a)
  next
    case False
    then show ?thesis using Cons.IH [of st n] Cons.prems by (simp add: a)
  qed
qed

lemma assign_baskets_assigned:
  assumes "distinct (map fst g)" and "\<forall>g' \<in> set g. snd g' = members cs0 (fst g')"
    and "p < length (filter (\<lambda>g'. length (snd g') > 1) g)"
    and "j \<in> set (snd (filter (\<lambda>g'. length (snd g') > 1) g ! p))"
    and "j < length (fst st)"
  shows "basket (fst (assign_baskets g n st) ! j) = Some (''B'' @ str_nat (n + p))"
  using assms
proof (induction g arbitrary: n st p)
  case Nil
  then show ?case by simp
next
  case (Cons a g)
  obtain k ms where a: "a = (k, ms)" by (cases a)
  have dist: "distinct (map fst g)" and mem: "\<forall>g' \<in> set g. snd g' = members cs0 (fst g')"
    using Cons.prems(1,2) by simp_all
  show ?case
  proof (cases "length ms > 1")
    case False
    then show ?thesis
      using Cons.IH [OF dist mem, of p st n] Cons.prems(3,4,5) by (simp add: a)
  next
    case True
    let ?st = "assign_members (''B'' @ str_nat n) ms st"
    have len: "j < length (fst ?st)" using Cons.prems(5) by (simp add: assign_members_length)
    show ?thesis
    proof (cases p)
      case 0
      then have jm: "j \<in> set ms" using Cons.prems(4) True a by simp
      have ms: "ms = members cs0 k" using Cons.prems(2) a by simp
      have key: "elective_key (cs0 ! j) = k" using jm ms by (simp add: members_iff)
      have "\<forall>g' \<in> set g. length (snd g') > 1 \<longrightarrow> j \<notin> set (snd g')"
      proof (intro ballI impI)
        fix g' assume g': "g' \<in> set g"
        then have "fst g' \<noteq> k" using Cons.prems(1) a by auto
        moreover have "snd g' = members cs0 (fst g')" using mem g' by blast
        ultimately show "j \<notin> set (snd g')" using key by (simp add: members_iff)
      qed
      then have "fst (assign_baskets g (n + 1) ?st) ! j = fst ?st ! j"
        using assign_baskets_unchanged [of g j ?st "n + 1"] len by blast
      moreover have "basket (fst ?st ! j) = Some (''B'' @ str_nat n)"
        using assign_members_nth [OF Cons.prems(5), of "''B'' @ str_nat n" ms] jm by simp
      ultimately show ?thesis using True 0 by (simp add: a)
    next
      case (Suc p')
      have "basket (fst (assign_baskets g (n + 1) ?st) ! j) = Some (''B'' @ str_nat (n + 1 + p'))"
        using Cons.IH [OF dist mem, of p' ?st "n + 1"] Cons.prems(3,4) True len
        by (simp add: a Suc)
      then show ?thesis using True by (simp add: a Suc)
    qed
  qed
qed

subsection \<open>The baskets after \<open>_detect_baskets\<close>\<close>

lemma multi_groups_members:
  assumes "g \<in> set (multi_groups cs)"
  shows "snd g = members cs (fst g)" "length (snd g) > 1"
  using assms elective_groups_members(1) [of "fst g" "snd g" cs]
  by (simp_all add: multi_groups_def)

lemma multi_groups_distinct: "distinct (map fst (multi_groups cs))"
  using elective_groups_char [of cs] by (simp add: multi_groups_def distinct_map_filter)

lemma members_two:
  "length (members cs k) > 1 \<longleftrightarrow>
     (\<exists>i j. i \<in> set (members cs k) \<and> j \<in> set (members cs k) \<and> i \<noteq> j)"
proof
  assume "length (members cs k) > 1"
  then obtain a b r where "members cs k = a # b # r"
    by (cases "members cs k"; cases "tl (members cs k)") auto
  moreover from this have "a \<noteq> b" using members_distinct [of cs k] by auto
  ultimately show "\<exists>i j. i \<in> set (members cs k) \<and> j \<in> set (members cs k) \<and> i \<noteq> j"
    by (metis list.set_intros(1,2))
next
  assume "\<exists>i j. i \<in> set (members cs k) \<and> j \<in> set (members cs k) \<and> i \<noteq> j"
  then obtain i j where ij: "i \<in> set (members cs k)" "j \<in> set (members cs k)" "i \<noteq> j" by blast
  show "length (members cs k) > 1"
  proof (cases "members cs k")
    case Nil
    then show ?thesis using ij by simp
  next
    case (Cons a r)
    then show ?thesis using ij by (cases r) auto
  qed
qed

lemma shares_key_members:
  "i < length cs \<Longrightarrow>
   shares_key cs i \<longleftrightarrow> is_elective (cs ! i) \<and> length (members cs (elective_key (cs ! i))) > 1"
  unfolding members_two shares_key_def members_iff
  by (metis)

lemma shares_key_group:
  assumes "i < length cs" "shares_key cs i"
  shows "\<exists>p < length (multi_groups cs). fst (multi_groups cs ! p) = elective_key (cs ! i)
           \<and> i \<in> set (snd (multi_groups cs ! p))"
proof -
  let ?k = "elective_key (cs ! i)"
  have e: "is_elective (cs ! i)" and l: "length (members cs ?k) > 1"
    using assms shares_key_members by blast+
  then have ne: "members cs ?k \<noteq> []" by auto
  have "map_of (elective_groups cs) ?k
          = (if members cs ?k = [] then None else Some (members cs ?k))"
    using elective_groups_char [of cs] by blast
  then have "map_of (elective_groups cs) ?k = Some (members cs ?k)"
    by (simp only: ne if_False)
  then have "(?k, members cs ?k) \<in> set (elective_groups cs)" by (rule map_of_SomeD)
  then have "(?k, members cs ?k) \<in> set (multi_groups cs)" using l by (simp add: multi_groups_def)
  then obtain p where p: "p < length (multi_groups cs)" "multi_groups cs ! p = (?k, members cs ?k)"
    by (auto simp: in_set_conv_nth)
  moreover have "i \<in> set (members cs ?k)" using assms(1) e by (simp add: members_iff)
  ultimately show ?thesis by auto
qed

lemma detect_baskets_assigned:
  assumes "p < length (multi_groups cs)" "j \<in> set (snd (multi_groups cs ! p))"
  shows "basket (fst (detect_baskets cs) ! j) = Some (''B'' @ str_nat (Suc p))"
proof -
  have "snd (multi_groups cs ! p) = members cs (fst (multi_groups cs ! p))"
    using multi_groups_members(1) [of "multi_groups cs ! p" cs] assms(1) by simp
  then have j: "j < length cs" using assms(2) by (simp add: members_iff)
  have m: "\<forall>g' \<in> set (elective_groups cs). snd g' = members cs (fst g')"
    using elective_groups_members(1) [of _ _ cs] by auto
  have d: "distinct (map fst (elective_groups cs))" using elective_groups_char [of cs] by blast
  show ?thesis
    using assign_baskets_assigned [OF d m, of p j "(cs, [])" 1] assms j
    by (simp add: detect_baskets_def multi_groups_def)
qed

lemma detect_baskets_unchanged:
  assumes "j < length cs" "\<not> shares_key cs j"
  shows "fst (detect_baskets cs) ! j = cs ! j"
proof -
  have "\<forall>g' \<in> set (elective_groups cs). length (snd g') > 1 \<longrightarrow> j \<notin> set (snd g')"
  proof (intro ballI impI)
    fix g' assume g': "g' \<in> set (elective_groups cs)" and l: "length (snd g') > 1"
    have s: "snd g' = members cs (fst g')"
      using elective_groups_members(1) [of "fst g'" "snd g'" cs] g' by simp
    show "j \<notin> set (snd g')"
    proof
      assume "j \<in> set (snd g')"
      then have "is_elective (cs ! j) \<and> elective_key (cs ! j) = fst g'"
        using s by (simp add: members_iff)
      then show False using assms l s shares_key_members [of j cs] by simp
    qed
  qed
  then show ?thesis
    using assign_baskets_unchanged [of "elective_groups cs" j "(cs, [])" 1] assms(1)
    by (simp add: detect_baskets_def)
qed

subsection \<open>The groups are numbered in the order of their first members\<close>

lemma dict_append_leaders:
  "\<forall>g \<in> set d. snd g \<noteq> [] \<Longrightarrow>
   map (\<lambda>g. hd (snd g)) (dict_append k v d)
     = (if k \<in> set (map fst d) then map (\<lambda>g. hd (snd g)) d else map (\<lambda>g. hd (snd g)) d @ [v])"
  by (induction d) force+

lemma elective_groups_leaders:
  "sorted_wrt (<) (map (\<lambda>g. hd (snd g)) (elective_groups cs))"
proof (induction cs rule: rev_induct)
  case Nil
  then show ?case by (simp add: elective_groups_def)
next
  case (snoc c cs)
  have ne: "\<forall>g \<in> set (elective_groups cs). snd g \<noteq> []"
    using elective_groups_members(2) [of _ _ cs] by auto
  have lt: "hd (snd g) < length cs" if "g \<in> set (elective_groups cs)" for g
  proof -
    have "(fst g, snd g) \<in> set (elective_groups cs)" using that by simp
    then have "snd g = members cs (fst g)" "snd g \<noteq> []"
      by (rule elective_groups_members)+
    then have "hd (snd g) \<in> set (members cs (fst g))" by (metis hd_in_set)
    then show ?thesis by (simp add: members_iff)
  qed
  show ?case
  proof (cases "is_elective c")
    case False
    then show ?thesis using snoc by (simp add: elective_groups_snoc)
  next
    case True
    show ?thesis
      using snoc lt
      by (auto simp: elective_groups_snoc True dict_append_leaders [OF ne] sorted_wrt_append)
  qed
qed

lemma multi_groups_leaders:
  "sorted_wrt (<) (map (\<lambda>g. hd (snd g)) (multi_groups cs))"
  using elective_groups_leaders [of cs]
  by (simp add: multi_groups_def sorted_wrt_map sorted_wrt_filter)

lemma elective_groups_snd:
  assumes "g \<in> set (elective_groups cs)"
  shows "snd g = members cs (fst g)" "snd g \<noteq> []"
proof -
  have "(fst g, snd g) \<in> set (elective_groups cs)" using assms by simp
  then show "snd g = members cs (fst g)" "snd g \<noteq> []"
    by (rule elective_groups_members)+
qed

lemma elective_groups_written_once:
  "distinct (concat (map snd (elective_groups cs)))"
proof (rule distinct_concat)
  have d: "distinct (map fst (elective_groups cs))" using elective_groups_char [of cs] by blast
  have key: "fst g = elective_key (cs ! j)"
    if "g \<in> set (elective_groups cs)" "j \<in> set (snd g)" for g j
    using elective_groups_snd(1) [OF that(1)] that(2) by (simp add: members_iff)
  have inj: "inj_on snd (set (elective_groups cs))"
  proof (rule inj_onI)
    fix g g' assume g: "g \<in> set (elective_groups cs)" and g': "g' \<in> set (elective_groups cs)"
      and e: "snd g = snd g'"
    have "snd g \<noteq> []" using elective_groups_snd(2) [OF g] .
    then obtain j where j: "j \<in> set (snd g)" by (meson hd_in_set)
    then have "fst g = fst g'" using key [OF g j] key [OF g'] e by simp
    then show "g = g'" using e by (simp add: prod_eq_iff)
  qed
  show "distinct (map snd (elective_groups cs))"
    using d inj by (simp add: distinct_map)
  show "distinct ys" if y: "ys \<in> set (map snd (elective_groups cs))" for ys
  proof -
    obtain k where "(k, ys) \<in> set (elective_groups cs)" using y by auto
    then have "ys = members cs k" by (rule elective_groups_members(1))
    then show ?thesis by (simp add: members_distinct)
  qed
  show "set ys \<inter> set zs = {}"
    if y: "ys \<in> set (map snd (elective_groups cs))"
      and z: "zs \<in> set (map snd (elective_groups cs))" and ne: "ys \<noteq> zs" for ys zs
  proof -
    obtain g g' where g: "g \<in> set (elective_groups cs)" "ys = snd g"
      and g': "g' \<in> set (elective_groups cs)" "zs = snd g'"
      using y z by auto
    show ?thesis
    proof (rule ccontr)
      assume "set ys \<inter> set zs \<noteq> {}"
      then obtain j where "j \<in> set (snd g)" "j \<in> set (snd g')" using g g' by auto
      then have "fst g = fst g'" using key g(1) g'(1) by simp
      then have "snd g = snd g'"
        using elective_groups_snd(1) [OF g(1)] elective_groups_snd(1) [OF g'(1)] by simp
      then show False using ne g g' by simp
    qed
  qed
qed

lemma elective_courses_baskets:
  "fst (detect_baskets elective_courses) =
     [(elective_course ''E1'' 5)\<lparr>basket := Some ''B1''\<rparr>, elective_course ''E2'' 7,
      (elective_course ''E3'' 5)\<lparr>basket := Some ''B1''\<rparr>, half_course ''Sem-I'' ''A'']"
  by (simp add: detect_baskets_def elective_groups_def assign_members_def elective_courses_def
        elective_course_def half_course_def elective_key_def str_nat_digit digit_char_def char_of_49)

subsection \<open>The run writes neither courses nor rooms\<close>

lemma distinct_concat_filter:
  "distinct (concat (map snd g)) \<Longrightarrow> distinct (concat (map snd (filter P g)))"
  by (induction g) auto

lemma run_frame:
  "courses (run cs rs) = courses (init cs rs) \<and> rooms (run cs rs) = rs
   \<and> (\<forall>x \<in> set (schedule (run cs rs)). ss_course x \<in> set (courses (init cs rs)))"
proof -
  let ?P = "\<lambda>s. courses s = courses (init cs rs) \<and> rooms s = rs
     \<and> (\<forall>x \<in> set (schedule s). ss_course x \<in> set (courses (init cs rs)))"
  have "?P (snd (generate_timetable (init cs rs)))"
  proof (rule generate_timetable_preserves [where P = ?P and ?cs0.0 = "courses (init cs rs)"])
    show "?P (init cs rs)" by (simp add: init_fields)
    show "?P (commit s c st n ts r)"
      if "?P s" and "c \<in> set (courses (init cs rs))" for s c st n ts r
      using that by (auto simp: commit_def Let_def)
  qed simp_all
  then show ?thesis by (simp add: run_def)
qed

section \<open>The claims\<close>

text \<open>
  Claim C6 (duration match): every session in the schedule produced by a run has a time
  slot whose \<open>duration_hours\<close> is the canonical duration of its session type: 1.5 for a
  lecture, 1.0 for a tutorial, 2.0 for a practical.
\<close>

theorem duration_match:
  "x \<in> set (schedule (run cs rs))
     \<Longrightarrow> duration_hours (ss_time_slot x) = required (ss_session_type x)
         \<and> required LECTURE = 3/2 \<and> required TUTORIAL = 1 \<and> required PRACTICAL = 2"
  using inv_duration_run [of cs rs] by (simp add: inv_duration_def required_def)

theorem duration_match_witness:
  "demo_session PRACTICAL (mk_slot ''Monday'' (9, 0) (11, 0) 2) demo_lab 1
      \<in> set (schedule (run [demo_course] [demo_room, demo_lab]))
   \<and> duration_hours
        (ss_time_slot (demo_session PRACTICAL (mk_slot ''Monday'' (9, 0) (11, 0) 2) demo_lab 1))
      = 2"
proof -
  have m: "demo_session PRACTICAL (mk_slot ''Monday'' (9, 0) (11, 0) 2) demo_lab 1
      \<in> set (schedule (run [demo_course] [demo_room, demo_lab]))"
    by (simp add: demo_run_schedule)
  show ?thesis using m duration_match [OF m] by (simp add: demo_session_def)
qed

text \<open>
  Claim C2 (daily cap): after a run, for every course id and every day, at most two
  sessions of that course are placed on that day, no two of them have the same session
  type, and a lecture and a tutorial are never both among them. A practical can share a
  day with a lecture: the example run places a lecture and a practical of its course on
  Monday.
\<close>

theorem daily_cap:
  "length (sessions_on (run cs rs) cid d) \<le> 2
   \<and> distinct (map ss_session_type (sessions_on (run cs rs) cid d))
   \<and> \<not> (LECTURE \<in> set (map ss_session_type (sessions_on (run cs rs) cid d))
        \<and> TUTORIAL \<in> set (map ss_session_type (sessions_on (run cs rs) cid d)))
   \<and> map ss_session_type
        (sessions_on (run [demo_course] [demo_room, demo_lab]) ''COURSE_1'' ''Monday'')
       = [LECTURE, PRACTICAL]"
proof -
  have "course_daily_schedule (run cs rs) cid d = map ss_session_type (sessions_on (run cs rs) cid d)"
    and "daily_ok (course_daily_schedule (run cs rs) cid d)"
    using inv_daily_run [of cs rs] unfolding inv_daily_def by blast+
  then have "daily_ok (map ss_session_type (sessions_on (run cs rs) cid d))" by simp
  moreover have "map ss_session_type
      (sessions_on (run [demo_course] [demo_room, demo_lab]) ''COURSE_1'' ''Monday'')
       = [LECTURE, PRACTICAL]"
    by (simp only: sessions_on_def demo_run_schedule)
      (simp add: demo_session_def demo_course_def mk_slot_def)
  ultimately show ?thesis by (simp add: daily_ok_def)
qed

text \<open>
  Claim C1 (no double-booking): when every input course has one of the two recognized
  values of \<open>semester_half\<close>, no two sessions of the final schedule claim the same slot
  for the same faculty name and half, for the same room (whatever the halves), or for the
  same student key and half. Non-negative session counts are not needed.
\<close>

theorem no_double_booking:
  assumes "\<forall>c \<in> set cs. recognized_half c"
    and "i < j" and "j < length (schedule (run cs rs))"
  shows "\<not> faculty_clash (schedule (run cs rs) ! i) (schedule (run cs rs) ! j)
       \<and> \<not> room_clash (schedule (run cs rs) ! i) (schedule (run cs rs) ! j)
       \<and> \<not> student_clash (schedule (run cs rs) ! i) (schedule (run cs rs) ! j)"
  using no_clash_run [OF assms(2,3)] assms(1) by blast

theorem no_double_booking_witness:
  "recognized_half demo_course
   \<and> length (schedule (run [demo_course] [demo_room, demo_lab])) = 3
   \<and> \<not> faculty_clash (schedule (run [demo_course] [demo_room, demo_lab]) ! 0)
         (schedule (run [demo_course] [demo_room, demo_lab]) ! 2)
   \<and> \<not> room_clash (schedule (run [demo_course] [demo_room, demo_lab]) ! 0)
         (schedule (run [demo_course] [demo_room, demo_lab]) ! 2)
   \<and> \<not> student_clash (schedule (run [demo_course] [demo_room, demo_lab]) ! 0)
         (schedule (run [demo_course] [demo_room, demo_lab]) ! 2)"
proof -
  have a: "\<forall>c \<in> set [demo_course]. recognized_half c"
    by (simp add: recognized_half_def demo_course_def)
  have l: "length (schedule (run [demo_course] [demo_room, demo_lab])) = 3"
    by (simp add: demo_run_schedule)
  have b: "(0::nat) < 2" by simp
  have c: "2 < length (schedule (run [demo_course] [demo_room, demo_lab]))"
    using l by simp
  show ?thesis using no_double_booking [OF a b c] a l by simp
qed

text \<open>
  Claim C9 (room exclusivity needs the two recognized halves): the room check looks only
  under the halves \<open>Sem-I\<close> and \<open>Sem-II\<close> while a commit records the slot under the
  course's own half. So no two sessions share a room and a slot when every course has a
  recognized half; and for every other value \<open>h\<close> of \<open>semester_half\<close>, the run on two
  one-lecture courses of half \<open>h\<close> with different faculty and students and one room
  commits both lectures to that room at the same slot.
\<close>

theorem room_exclusivity_two_halves:
  "((\<forall>c \<in> set cs. recognized_half c) \<longrightarrow> i < j \<longrightarrow> j < length (schedule (run cs rs))
      \<longrightarrow> \<not> room_clash (schedule (run cs rs) ! i) (schedule (run cs rs) ! j))
   \<and> (h \<noteq> ''Sem-I'' \<and> h \<noteq> ''Sem-II'' \<longrightarrow>
        length (schedule (run [half_course h ''A'', half_course h ''B''] [demo_room])) = 2
        \<and> room_clash (schedule (run [half_course h ''A'', half_course h ''B''] [demo_room]) ! 0)
                     (schedule (run [half_course h ''A'', half_course h ''B''] [demo_room]) ! 1)
        \<and> ss_room (schedule (run [half_course h ''A'', half_course h ''B''] [demo_room]) ! 0)
            = ss_room (schedule (run [half_course h ''A'', half_course h ''B''] [demo_room]) ! 1)
        \<and> ss_time_slot (schedule (run [half_course h ''A'', half_course h ''B''] [demo_room]) ! 0)
            = ss_time_slot (schedule (run [half_course h ''A'', half_course h ''B''] [demo_room]) ! 1))"
proof -
  have "h \<noteq> ''Sem-I'' \<and> h \<noteq> ''Sem-II'' \<longrightarrow>
        length (schedule (run [half_course h ''A'', half_course h ''B''] [demo_room])) = 2
        \<and> room_clash (schedule (run [half_course h ''A'', half_course h ''B''] [demo_room]) ! 0)
                     (schedule (run [half_course h ''A'', half_course h ''B''] [demo_room]) ! 1)
        \<and> ss_room (schedule (run [half_course h ''A'', half_course h ''B''] [demo_room]) ! 0)
            = ss_room (schedule (run [half_course h ''A'', half_course h ''B''] [demo_room]) ! 1)
        \<and> ss_time_slot (schedule (run [half_course h ''A'', half_course h ''B''] [demo_room]) ! 0)
            = ss_time_slot (schedule (run [half_course h ''A'', half_course h ''B''] [demo_room]) ! 1)"
    by (simp add: half_run_schedule room_clash_def slot_eq_def)
  then show ?thesis using no_clash_run(3) [of i j cs rs] by blast
qed

theorem room_exclusivity_two_halves_witness:
  "recognized_half demo_course
   \<and> \<not> room_clash (schedule (run [demo_course] [demo_room, demo_lab]) ! 0)
         (schedule (run [demo_course] [demo_room, demo_lab]) ! 1)
   \<and> room_clash (schedule (run [half_course ''first-half'' ''A'', half_course ''first-half'' ''B''] [demo_room]) ! 0)
        (schedule (run [half_course ''first-half'' ''A'', half_course ''first-half'' ''B''] [demo_room]) ! 1)"
proof -
  have a: "\<forall>c \<in> set [demo_course]. recognized_half c"
    by (simp add: recognized_half_def demo_course_def)
  have l: "length (schedule (run [demo_course] [demo_room, demo_lab])) = 3"
    by (simp add: demo_run_schedule)
  show ?thesis
    using room_exclusivity_two_halves [of "[demo_course]" 0 1 "[demo_room, demo_lab]" "''first-half''"]
      a l by simp
qed

text \<open>
  Claim C3 (completeness of reporting): for non-negative session counts, after a run the
  number of sessions in the schedule plus the number of entries in the conflicts list is
  the sum of lectures, tutorials and practicals over the input courses.
\<close>

theorem completeness_of_reporting:
  assumes "\<forall>c \<in> set cs. 0 \<le> lectures c \<and> 0 \<le> tutorials c \<and> 0 \<le> practicals c"
  shows "int (length (schedule (run cs rs))) + int (length (conflicts (run cs rs)))
           = (\<Sum>c\<leftarrow>cs. lectures c + tutorials c + practicals c)"
proof -
  have "int (\<Sum>c\<leftarrow>cs. sessions_required c) = (\<Sum>c\<leftarrow>cs. lectures c + tutorials c + practicals c)"
    using assms by (induction cs) (auto simp: sessions_required_def)
  then show ?thesis using run_count [of cs rs] by (simp add: booked_def)
qed

theorem completeness_of_reporting_witness:
  "0 \<le> lectures demo_course \<and> 0 \<le> tutorials demo_course \<and> 0 \<le> practicals demo_course
   \<and> int (length (schedule (run [demo_course] [demo_room, demo_lab])))
      + int (length (conflicts (run [demo_course] [demo_room, demo_lab]))) = 3"
proof -
  have a: "\<forall>c \<in> set [demo_course]. 0 \<le> lectures c \<and> 0 \<le> tutorials c \<and> 0 \<le> practicals c"
    by (simp add: demo_course_def)
  show ?thesis using completeness_of_reporting [OF a, of "[demo_room, demo_lab]"] a
    by (simp add: demo_course_def)
qed

text \<open>
  Claim C4 (order of the checks and attribution of reasons), as amended:
  \<open>_check_constraints\<close> evaluates its checks in the order faculty busy, room occupied,
  students busy, daily cap, same-day collision of session types, wrong duration, and
  reports only the first failing one. For each check it increments the counter of the
  reason the specification lists, and returns a message; for the daily cap the counted
  reason is \<open>Max 2 sessions/day exceeded\<close> and the returned message is
  \<open>Course already has 2 sessions today\<close>. The counterexample shows that the returned
  string for the daily cap is not the listed reason.
\<close>

theorem check_constraints_order:
  "(faculty_busy s c ts \<longrightarrow>
      check_constraints s c st ts r = rejected ''Faculty busy'' ''Faculty busy'' s)
   \<and> (\<not> faculty_busy s c ts \<and> room_occupied s r ts \<longrightarrow>
      check_constraints s c st ts r = rejected ''Room occupied'' ''Room occupied'' s)
   \<and> (\<not> faculty_busy s c ts \<and> \<not> room_occupied s r ts \<and> students_busy s c ts \<longrightarrow>
      check_constraints s c st ts r = rejected ''Students busy'' ''Students busy'' s)
   \<and> (\<not> faculty_busy s c ts \<and> \<not> room_occupied s r ts \<and> \<not> students_busy s c ts
       \<and> length (daily_sessions s c ts) \<ge> 2 \<longrightarrow>
      check_constraints s c st ts r
        = rejected ''Course already has 2 sessions today'' ''Max 2 sessions/day exceeded'' s)
   \<and> (\<not> faculty_busy s c ts \<and> \<not> room_occupied s r ts \<and> \<not> students_busy s c ts
       \<and> length (daily_sessions s c ts) = 1 \<and> type_collision (hd (daily_sessions s c ts)) st \<longrightarrow>
      check_constraints s c st ts r =
        (if st = PRACTICAL then rejected ''Already has a practical today'' ''Two practicals same day'' s
         else if hd (daily_sessions s c ts) \<noteq> st
         then rejected ''Already has a theory session today'' ''Lecture+Tutorial same day'' s
         else if st = LECTURE then rejected ''Already has a lecture today'' ''Two lectures same day'' s
         else rejected ''Already has a tutorial today'' ''Two tutorials same day'' s))
   \<and> (\<not> faculty_busy s c ts \<and> \<not> room_occupied s r ts \<and> \<not> students_busy s c ts
       \<and> \<not> length (daily_sessions s c ts) \<ge> 2
       \<and> \<not> (length (daily_sessions s c ts) = 1 \<and> type_collision (hd (daily_sessions s c ts)) st)
       \<and> duration_hours ts \<noteq> required st \<longrightarrow>
      check_constraints s c st ts r = rejected ''Wrong duration'' ''Wrong duration'' s)
   \<and> (\<not> faculty_busy s c ts \<and> \<not> room_occupied s r ts \<and> \<not> students_busy s c ts
       \<and> \<not> length (daily_sessions s c ts) \<ge> 2
       \<and> \<not> (length (daily_sessions s c ts) = 1 \<and> type_collision (hd (daily_sessions s c ts)) st)
       \<and> duration_hours ts = required st \<longrightarrow>
      check_constraints s c st ts r = ((True, ''OK''), s))"
  by (cases st; cases "hd (daily_sessions s c ts)")
    (simp_all add: check_constraints_def rejected_def faculty_busy_def room_occupied_def
      students_busy_def daily_sessions_def type_collision_def Let_def)

theorem check_constraints_order_witness:
  "faculty_busy (run [demo_course] [demo_room, demo_lab]) demo_course
     (mk_slot ''Monday'' (9, 0) (10, 30) (3/2))
   \<and> room_occupied (run [demo_course] [demo_room, demo_lab]) demo_room
     (mk_slot ''Monday'' (9, 0) (10, 30) (3/2))
   \<and> fst (check_constraints (run [demo_course] [demo_room, demo_lab]) demo_course LECTURE
        (mk_slot ''Monday'' (9, 0) (10, 30) (3/2)) demo_room) = (False, ''Faculty busy'')"
proof -
  have f: "faculty_busy (run [demo_course] [demo_room, demo_lab]) demo_course
     (mk_slot ''Monday'' (9, 0) (10, 30) (3/2))"
    by (simp add: faculty_busy_def demo_keys demo_run_trackers slot_in_def slot_eq_def mk_slot_def)
  have r: "room_occupied (run [demo_course] [demo_room, demo_lab]) demo_room
     (mk_slot ''Monday'' (9, 0) (10, 30) (3/2))"
    by (simp add: room_occupied_def demo_keys demo_run_trackers slot_in_def slot_eq_def mk_slot_def)
  show ?thesis
    using f r check_constraints_order [of "run [demo_course] [demo_room, demo_lab]" demo_course
        "mk_slot ''Monday'' (9, 0) (10, 30) (3/2)" LECTURE demo_room]
    by (simp add: rejected_def)
qed

theorem check_constraints_daily_cap_counterexample:
  "length (course_daily_schedule (run [demo_course] [demo_room, demo_lab])
      (course_id demo_course) ''Monday'') = 2
   \<and> fst (check_constraints (run [demo_course] [demo_room, demo_lab]) demo_course TUTORIAL
        (mk_slot ''Monday'' (10, 30) (11, 30) 1) demo_room)
      = (False, ''Course already has 2 sessions today'')
   \<and> snd (fst (check_constraints (run [demo_course] [demo_room, demo_lab]) demo_course TUTORIAL
        (mk_slot ''Monday'' (10, 30) (11, 30) 1) demo_room))
      \<noteq> ''Max 2 sessions/day exceeded''"
proof -
  have d: "day (mk_slot ''Monday'' (10, 30) (11, 30) 1) = ''Monday''" by (simp add: mk_slot_def)
  have "fst (check_constraints (run [demo_course] [demo_room, demo_lab]) demo_course TUTORIAL
        (mk_slot ''Monday'' (10, 30) (11, 30) 1) demo_room)
      = (False, ''Course already has 2 sessions today'')"
    by (simp add: check_constraints_def Let_def demo_keys d demo_run_trackers)
      (simp add: slot_in_def slot_eq_def mk_slot_def)
  then show ?thesis by (simp add: demo_keys demo_run_trackers)
qed

text \<open>
  Claim C5 (room classifier), as amended: \<open>bigRooms\<close> holds the rooms of capacity at
  least 100, sorted by descending capacity; \<open>regularRooms\<close> is sorted by descending
  capacity; \<open>labs\<close> holds the rooms with a lab-like id, in input order. \<open>bigRooms\<close> and
  \<open>regularRooms\<close> are disjoint and every room is in at least one of the three lists. A
  room whose id is not lab-like is in exactly one list, \<open>bigRooms\<close> or \<open>regularRooms\<close> by
  its capacity; a room whose id starts with \<open>L\<close> is in \<open>labs\<close>, not in \<open>regularRooms\<close>,
  and also in \<open>bigRooms\<close> when its capacity is at least 100. The counterexample shows a
  room in two lists.
\<close>

theorem room_classes:
  "big_rooms (init cs rs) = sort_key (\<lambda>r. - capacity r) (filter (\<lambda>r. capacity r \<ge> 100) rs)
   \<and> sorted (map (\<lambda>r. - capacity r) (big_rooms (init cs rs)))
   \<and> sorted (map (\<lambda>r. - capacity r) (regular_rooms (init cs rs)))
   \<and> labs (init cs rs) = filter is_lab rs
   \<and> set (big_rooms (init cs rs)) \<inter> set (regular_rooms (init cs rs)) = {}
   \<and> set (big_rooms (init cs rs)) \<union> set (regular_rooms (init cs rs)) \<union> set (labs (init cs rs))
       = set rs
   \<and> (r \<in> set rs \<and> \<not> is_lab r \<longrightarrow>
        r \<notin> set (labs (init cs rs))
        \<and> (r \<in> set (big_rooms (init cs rs)) \<longleftrightarrow> capacity r \<ge> 100)
        \<and> (r \<in> set (regular_rooms (init cs rs)) \<longleftrightarrow> capacity r < 100))
   \<and> (r \<in> set rs \<and> startswith (room_id r) ''L'' \<longrightarrow>
        r \<in> set (labs (init cs rs)) \<and> r \<notin> set (regular_rooms (init cs rs))
        \<and> (r \<in> set (big_rooms (init cs rs)) \<longleftrightarrow> capacity r \<ge> 100))"
proof -
  have f: "big_rooms (init cs rs) = classify_big rs" "regular_rooms (init cs rs) = classify_regular rs"
    "labs (init cs rs) = classify_labs rs"
    by (simp_all add: init_def)
  have 1: "big_rooms (init cs rs) = sort_key (\<lambda>r. - capacity r) (filter (\<lambda>r. capacity r \<ge> 100) rs)"
    by (simp add: f classify_big_def)
  have 2: "labs (init cs rs) = filter is_lab rs" by (simp add: f classify_labs_def)
  have 3: "set (big_rooms (init cs rs)) \<inter> set (regular_rooms (init cs rs)) = {}"
    by (auto simp: f classify_sets)
  have 4: "set (big_rooms (init cs rs)) \<union> set (regular_rooms (init cs rs)) \<union> set (labs (init cs rs))
       = set rs"
    by (auto simp: f classify_sets is_lab_def)
  have 5: "r \<in> set rs \<and> \<not> is_lab r \<longrightarrow>
        r \<notin> set (labs (init cs rs))
        \<and> (r \<in> set (big_rooms (init cs rs)) \<longleftrightarrow> capacity r \<ge> 100)
        \<and> (r \<in> set (regular_rooms (init cs rs)) \<longleftrightarrow> capacity r < 100)"
    by (auto simp: f classify_sets is_lab_def)
  have 6: "r \<in> set rs \<and> startswith (room_id r) ''L'' \<longrightarrow>
        r \<in> set (labs (init cs rs)) \<and> r \<notin> set (regular_rooms (init cs rs))
        \<and> (r \<in> set (big_rooms (init cs rs)) \<longleftrightarrow> capacity r \<ge> 100)"
    by (auto simp: f classify_sets is_lab_def)
  show ?thesis using 1 2 3 4 5 6 classify_sorted [of rs] by (simp only: f)
qed

theorem room_classes_witness:
  "demo_room \<in> set [demo_room, demo_lab] \<and> \<not> is_lab demo_room
   \<and> demo_room \<in> set (big_rooms (init [] [demo_room, demo_lab]))
   \<and> demo_room \<notin> set (regular_rooms (init [] [demo_room, demo_lab]))
   \<and> demo_room \<notin> set (labs (init [] [demo_room, demo_lab]))"
  using room_classes [of "[]" "[demo_room, demo_lab]" demo_room] demo_is_lab(1)
  by (simp add: demo_room_def demo_lab_def)

theorem room_classes_counterexample:
  "big_rooms (init [] [big_lab, marker_lab]) = [big_lab]
   \<and> regular_rooms (init [] [big_lab, marker_lab]) = [marker_lab]
   \<and> labs (init [] [big_lab, marker_lab]) = [big_lab, marker_lab]
   \<and> set (big_rooms (init [] [big_lab, marker_lab])) \<inter> set (labs (init [] [big_lab, marker_lab]))
       \<noteq> {}"
  by (simp add: init_def classify_big_def classify_regular_def classify_labs_def demo_is_lab)
    (simp add: big_lab_def marker_lab_def)

text \<open>
  Claim C7 (single-course scenario), as amended: for one course with one lecture, no
  tutorial and no practical, and one room whose capacity is at least the course's
  \<open>num_students\<close> and which either has capacity at least 100 or an id that does not start
  with \<open>L\<close>, the run from the constructor's state produces exactly one scheduled
  session, the lecture numbered 1 at the first lecture slot (Monday 9:00 to 10:30) in that
  room, and no conflict. The counterexample is a room of sufficient capacity whose id
  starts with \<open>L\<close>: it is only a lab, and the lecture is reported as a conflict.
\<close>

theorem single_course:
  assumes "lectures c = 1" "tutorials c = 0" "practicals c = 0"
    and "capacity r \<ge> num_students c"
    and "capacity r \<ge> 100 \<or> \<not> startswith (room_id r) ''L''"
  shows "schedule (run [c] [r]) =
           [\<lparr>ss_course = c, ss_session_type = LECTURE,
             ss_time_slot = mk_slot ''Monday'' (9, 0) (10, 30) (3/2), ss_room = r,
             ss_faculty_name = faculty_name c, ss_session_number = 1, ss_basket = basket c\<rparr>]
         \<and> conflicts (run [c] [r]) = []"
proof -
  have s: "get_suitable_rooms (init [c] [r]) c LECTURE = [r]"
    by (rule suitable_single [OF assms(4,5)])
  have i: "courses (init [c] [r]) = [c]" by (simp add: init_fields detect_baskets_single)
  have sl: "slots_by_duration (init [c] [r]) (required LECTURE)
     = mk_slot ''Monday'' (9, 0) (10, 30) (3/2) # tl (group_by_duration generate_time_slots (3/2))"
    by (simp add: init_def required_def lecture_slots days_def)
  have ss: "schedule_session (init [c] [r]) c LECTURE 1 =
     (True, commit (init [c] [r]) c LECTURE 1 (mk_slot ''Monday'' (9, 0) (10, 30) (3/2)) r)"
    by (simp add: schedule_session_def s sl Let_def)
       (simp add: check_constraints_def Let_def init_fields slot_in_def required_def mk_slot_def)
  show ?thesis
    by (simp add: run_def generate_timetable_def i schedule_course_def sessions_needed_def assms ss)
       (simp add: commit_def Let_def init_fields)
qed

theorem single_course_witness:
  "lectures (half_course ''Sem-I'' ''A'') = 1 \<and> tutorials (half_course ''Sem-I'' ''A'') = 0
   \<and> practicals (half_course ''Sem-I'' ''A'') = 0
   \<and> capacity demo_room \<ge> num_students (half_course ''Sem-I'' ''A'')
   \<and> length (schedule (run [half_course ''Sem-I'' ''A''] [demo_room])) = 1
   \<and> ss_time_slot (schedule (run [half_course ''Sem-I'' ''A''] [demo_room]) ! 0)
       = mk_slot ''Monday'' (9, 0) (10, 30) (3/2)
   \<and> conflicts (run [half_course ''Sem-I'' ''A''] [demo_room]) = []"
proof -
  have a: "lectures (half_course ''Sem-I'' ''A'') = 1" "tutorials (half_course ''Sem-I'' ''A'') = 0"
    "practicals (half_course ''Sem-I'' ''A'') = 0"
    "capacity demo_room \<ge> num_students (half_course ''Sem-I'' ''A'')"
    "capacity demo_room \<ge> 100 \<or> \<not> startswith (room_id demo_room) ''L''"
    by (simp_all add: half_course_def demo_room_def)
  show ?thesis using single_course [OF a] a by simp
qed

theorem single_course_lab_room_counterexample:
  "lectures (half_course ''Sem-I'' ''A'') = 1 \<and> tutorials (half_course ''Sem-I'' ''A'') = 0
   \<and> practicals (half_course ''Sem-I'' ''A'') = 0
   \<and> capacity demo_lab \<ge> num_students (half_course ''Sem-I'' ''A'')
   \<and> schedule (run [half_course ''Sem-I'' ''A''] [demo_lab]) = []
   \<and> conflicts (run [half_course ''Sem-I'' ''A''] [demo_lab])
       = [''A (A  Sem-I) - Lecture #1 - Faculty: A'']"
  by (simp add: run_eval char_of_49 half_course_def demo_lab_def conflict_message_def
        session_type_value_def)

text \<open>
  Claim C8 (basket assignment): for input courses whose \<open>basket\<close> is empty, after
  \<open>_detect_baskets\<close> the basket of a course is set exactly when the course is an
  elective and another elective shares its key (semester, branch, semester half); two such
  courses have the same basket id exactly when they have the same key; the groups with
  more than one member have distinct keys, consist of all electives of their key, and the
  group at position \<open>p\<close> (counted from 0, in the order of the first members in the input)
  gives the id \<open>B\<close> followed by the decimal numeral of \<open>p + 1\<close> to all its members;
  every other course is left as it is. The assignment is a function of the course list, so
  identical inputs give identical ids.
\<close>

theorem basket_assignment:
  assumes "\<forall>c \<in> set cs. basket c = None" and "i < length cs" and "j < length cs"
  shows "(basket (fst (detect_baskets cs) ! i) \<noteq> None \<longleftrightarrow> shares_key cs i)
    \<and> (shares_key cs i \<and> shares_key cs j \<longrightarrow>
         (basket (fst (detect_baskets cs) ! i) = basket (fst (detect_baskets cs) ! j)
            \<longleftrightarrow> elective_key (cs ! i) = elective_key (cs ! j)))
    \<and> (shares_key cs i \<longrightarrow>
         (\<exists>p < length (multi_groups cs). fst (multi_groups cs ! p) = elective_key (cs ! i)
            \<and> basket (fst (detect_baskets cs) ! i) = Some (''B'' @ str_nat (Suc p))))
    \<and> (\<not> shares_key cs i \<longrightarrow> fst (detect_baskets cs) ! i = cs ! i)
    \<and> (\<forall>p < length (multi_groups cs). \<forall>m \<in> set (snd (multi_groups cs ! p)).
          basket (fst (detect_baskets cs) ! m) = Some (''B'' @ str_nat (Suc p)))
    \<and> (\<forall>g \<in> set (multi_groups cs). snd g = members cs (fst g) \<and> length (snd g) > 1)
    \<and> distinct (map fst (multi_groups cs))
    \<and> sorted_wrt (<) (map (\<lambda>g. hd (snd g)) (multi_groups cs))"
proof -
  let ?cs' = "fst (detect_baskets cs)"
  have grp: "\<exists>p < length (multi_groups cs). fst (multi_groups cs ! p) = elective_key (cs ! x)
            \<and> basket (?cs' ! x) = Some (''B'' @ str_nat (Suc p))"
    if "x < length cs" "shares_key cs x" for x
    using shares_key_group [OF that] detect_baskets_assigned by blast
  have un: "?cs' ! i = cs ! i" if "\<not> shares_key cs i"
    using detect_baskets_unchanged [OF assms(2) that] .
  have none: "basket (cs ! i) = None" using assms(1,2) by simp
  have 1: "basket (?cs' ! i) \<noteq> None \<longleftrightarrow> shares_key cs i"
  proof (cases "shares_key cs i")
    case True
    then show ?thesis using grp [OF assms(2)] by auto
  next
    case False
    then show ?thesis using un none by simp
  qed
  have 2: "basket (?cs' ! i) = basket (?cs' ! j) \<longleftrightarrow> elective_key (cs ! i) = elective_key (cs ! j)"
    if si: "shares_key cs i" and sj: "shares_key cs j"
  proof -
    obtain p where p: "p < length (multi_groups cs)"
      "fst (multi_groups cs ! p) = elective_key (cs ! i)"
      "basket (?cs' ! i) = Some (''B'' @ str_nat (Suc p))"
      using grp [OF assms(2) si] by blast
    obtain q where q: "q < length (multi_groups cs)"
      "fst (multi_groups cs ! q) = elective_key (cs ! j)"
      "basket (?cs' ! j) = Some (''B'' @ str_nat (Suc q))"
      using grp [OF assms(3) sj] by blast
    have "elective_key (cs ! i) = elective_key (cs ! j) \<longleftrightarrow> p = q"
      using p(1,2) q(1,2) multi_groups_distinct [of cs]
      by (metis length_map nth_eq_iff_index_eq nth_map)
    moreover have "basket (?cs' ! i) = basket (?cs' ! j) \<longleftrightarrow> p = q"
      using p(3) q(3) str_nat_inj [of "Suc p" "Suc q"] by auto
    ultimately show ?thesis by simp
  qed
  have 5: "\<forall>p < length (multi_groups cs). \<forall>m \<in> set (snd (multi_groups cs ! p)).
          basket (?cs' ! m) = Some (''B'' @ str_nat (Suc p))"
    using detect_baskets_assigned by blast
  have 6: "\<forall>g \<in> set (multi_groups cs). snd g = members cs (fst g) \<and> length (snd g) > 1"
    using multi_groups_members by blast
  show ?thesis
    using 1 2 grp [OF assms(2)] un 5 6 multi_groups_distinct [of cs] multi_groups_leaders [of cs]
    by blast
qed

theorem basket_assignment_witness:
  "shares_key elective_courses 0 \<and> shares_key elective_courses 2
   \<and> \<not> shares_key elective_courses 1
   \<and> basket (fst (detect_baskets elective_courses) ! 0) = Some ''B1''
   \<and> basket (fst (detect_baskets elective_courses) ! 2) = Some ''B1''
   \<and> basket (fst (detect_baskets elective_courses) ! 1) = None"
proof -
  have a: "\<forall>c \<in> set elective_courses. basket c = None"
    by (simp add: elective_courses_def elective_course_def half_course_def)
  have l: "(0::nat) < length elective_courses" "1 < length elective_courses"
    "2 < length elective_courses"
    by (simp_all add: elective_courses_def)
  have b: "basket (fst (detect_baskets elective_courses) ! 0) = Some ''B1''"
    "basket (fst (detect_baskets elective_courses) ! 2) = Some ''B1''"
    "basket (fst (detect_baskets elective_courses) ! 1) = None"
    by (simp_all add: elective_courses_baskets elective_course_def)
  show ?thesis
    using basket_assignment [OF a l(1) l(3)] basket_assignment [OF a l(2) l(3)]
      basket_assignment [OF a l(3) l(1)] b
    by simp
qed

text \<open>
  Claim C10 (frame condition on the inputs): over construction and \<open>generate_timetable\<close>,
  every course of the input is unchanged up to its \<open>basket\<close> field; the courses are
  written by \<open>_detect_baskets\<close> only, during construction, and \<open>generate_timetable\<close>
  leaves them as they are; \<open>_detect_baskets\<close> writes the basket once for each member of
  each group with more than one member, and no course index occurs twice among these
  members; the rooms are unchanged; and the courses that the sessions refer to are courses
  of the store.
\<close>

theorem input_frame:
  "list_all2 only_basket_differs cs (courses (run cs rs))
   \<and> courses (init cs rs) = fst (detect_baskets cs)
   \<and> courses (run cs rs) = courses (init cs rs)
   \<and> rooms (run cs rs) = rs
   \<and> distinct (concat (map snd (multi_groups cs)))
   \<and> (\<forall>x \<in> set (schedule (run cs rs)). ss_course x \<in> set (courses (run cs rs)))"
  using run_frame [of cs rs] detect_baskets_frame [of cs]
    distinct_concat_filter [OF elective_groups_written_once [of cs]]
  by (simp add: init_fields multi_groups_def)

theorem input_frame_witness:
  "demo_session LECTURE (mk_slot ''Monday'' (9, 0) (10, 30) (3/2)) demo_room 1
     \<in> set (schedule (run [demo_course] [demo_room, demo_lab]))
   \<and> demo_course \<in> set (courses (run [demo_course] [demo_room, demo_lab]))
   \<and> courses (run [demo_course] [demo_room, demo_lab]) = [demo_course]
   \<and> rooms (run [demo_course] [demo_room, demo_lab]) = [demo_room, demo_lab]"
proof -
  have m: "demo_session LECTURE (mk_slot ''Monday'' (9, 0) (10, 30) (3/2)) demo_room 1
     \<in> set (schedule (run [demo_course] [demo_room, demo_lab]))"
    by (simp add: demo_run_schedule)
  show ?thesis
    using input_frame [of "[demo_course]" "[demo_room, demo_lab]"] m
    by (auto simp: detect_baskets_single demo_session_def)
qed

end
